theory Spec2Isabelle
  imports Main "HOL-Library.AList" "HOL-Library.Code_Target_Nat"
begin

section \<open>JavaScript values, objects and the heap\<close>

text \<open>
  The parser builds its AST out of mutable JavaScript objects that point at each other
  (children, \<open>parent\<close>, \<open>resolved\<close>, \<open>references\<close>), so the model keeps an explicit
  heap: an address is an index into a list of objects, an object is its list of
  properties in insertion order. A JavaScript string is a sequence of UTF-16 code units;
  a code unit is a natural number, and its bound of 16 bits plays no role in the parser.
  Numbers that occur in an AST are integers or \<open>Infinity\<close>. Arrays are kept inline in the
  property that holds them: the source never lets two properties share one array.
\<close>

type_synonym addr = nat
type_synonym jsstring = "nat list"

datatype jsval =
    VUndef
  | VNull
  | VBool bool
  | VNum int
  | VInf
  | VNegInf
  | VStr jsstring
  | VRef addr
  | VArr "jsval list"

type_synonym obj = "(string \<times> jsval) list"
type_synonym heap = "obj list"

text \<open>
  \<open>UnknownError\<close> is the error every handler throws on misuse, \<open>TypeError\<close> the
  runtime's own, \<open>SyntaxError\<close> the validator's rejection of the input. \<open>OutOfFuel\<close>
  is not a JavaScript error: the recursions over the object graph are bounded by an
  explicit amount of fuel, and running out of it is reported as this value.
\<close>

datatype error = UnknownError | TypeError | SyntaxError | OutOfFuel

definition ustr :: "string \<Rightarrow> jsstring" where
  "ustr s = map of_char s"

abbreviation S :: "string \<Rightarrow> jsval" where
  "S s \<equiv> VStr (ustr s)"

definition bindE :: "error + 'a \<Rightarrow> ('a \<Rightarrow> error + 'b) \<Rightarrow> error + 'b" where
  "bindE m f = (case m of Inl e \<Rightarrow> Inl e | Inr x \<Rightarrow> f x)"

text \<open>Property read \<open>o.k\<close> (\<open>undefined\<close> when absent) and write \<open>o.k = v\<close>.\<close>

definition getp :: "heap \<Rightarrow> addr \<Rightarrow> string \<Rightarrow> jsval" where
  "getp h a k =
     (if a < length h then (case map_of (h ! a) k of Some v \<Rightarrow> v | None \<Rightarrow> VUndef)
      else VUndef)"

definition setp :: "heap \<Rightarrow> addr \<Rightarrow> string \<Rightarrow> jsval \<Rightarrow> heap" where
  "setp h a k v = (if a < length h then h[a := AList.update k v (h ! a)] else h)"

text \<open>\<open>v.k\<close> for a value that need not be an object reference.\<close>

definition field :: "heap \<Rightarrow> jsval \<Rightarrow> string \<Rightarrow> jsval" where
  "field h v k = (case v of VRef a \<Rightarrow> getp h a k | _ \<Rightarrow> VUndef)"

text \<open>\<open>o.k.push(v)\<close> and \<open>o.k.pop()\<close>; a receiver that is no array is a TypeError.\<close>

definition pushp :: "heap \<Rightarrow> addr \<Rightarrow> string \<Rightarrow> jsval \<Rightarrow> error + heap" where
  "pushp h a k v =
     (case getp h a k of
        VArr xs \<Rightarrow> Inr (setp h a k (VArr (xs @ [v])))
      | _ \<Rightarrow> Inl TypeError)"

definition popp :: "heap \<Rightarrow> addr \<Rightarrow> string \<Rightarrow> error + (jsval \<times> heap)" where
  "popp h a k =
     (case getp h a k of
        VArr xs \<Rightarrow>
          Inr (if xs = [] then VUndef else last xs, setp h a k (VArr (butlast xs)))
      | _ \<Rightarrow> Inl TypeError)"

text \<open>\<open>String.prototype.slice\<close>: negative offsets count from the end, all are clamped.\<close>

definition sliceStr :: "jsstring \<Rightarrow> int \<Rightarrow> int \<Rightarrow> jsstring" where
  "sliceStr s start endp =
     (let len = int (length s);
          from = (if start < 0 then max (len + start) 0 else min start len);
          to = (if endp < 0 then max (len + endp) 0 else min endp len)
      in if from < to then take (nat (to - from)) (drop (nat from) s) else [])"

section \<open>The AST assembler (class RegExpParserState of parser.ts)\<close>

text \<open>
  The state of one \<open>RegExpParserState\<close>, with the heap its nodes live in. The three
  module constants \<open>DUMMY_PATTERN\<close>, \<open>DUMMY_FLAGS\<close> and \<open>DUMMY_CAPTURING_GROUP\<close> are the
  empty objects at addresses 0, 1 and 2. The two arrays of the state hold node objects
  only, and the expression buffer is a \<open>Map\<close> from node objects to node objects.
\<close>

record pstate =
  strict :: bool
  ecmaVersion :: int
  node :: jsval
  expressionBufferMap :: "(addr \<times> addr) list"
  flags :: jsval
  backreferences :: "addr list"
  capturingGroups :: "addr list"
  source :: jsstring
  heap :: heap

definition DUMMY_PATTERN :: jsval where "DUMMY_PATTERN = VRef 0"
definition DUMMY_FLAGS :: jsval where "DUMMY_FLAGS = VRef 1"
definition DUMMY_CAPTURING_GROUP :: jsval where "DUMMY_CAPTURING_GROUP = VRef 2"

definition heap0 :: heap where
  "heap0 = [[], [], []]"

definition newState :: "bool \<Rightarrow> int \<Rightarrow> heap \<Rightarrow> pstate" where
  "newState strictOpt version h =
     \<lparr>strict = strictOpt, ecmaVersion = version, node = DUMMY_PATTERN,
      expressionBufferMap = [], flags = DUMMY_FLAGS, backreferences = [],
      capturingGroups = [], source = [], heap = h\<rparr>"

text \<open>
  \<open>const parent = this._node\<close> followed by a test of \<open>parent.type\<close>: reading a property
  of \<open>null\<close> or \<open>undefined\<close> is a TypeError; any other value that is no object has no
  \<open>type\<close>, and every handler then throws its \<open>UnknownError\<close>.
\<close>

definition withCursor :: "pstate \<Rightarrow> (addr \<Rightarrow> error + 'a) \<Rightarrow> error + 'a" where
  "withCursor st f =
     (case node st of
        VRef p \<Rightarrow> f p
      | VUndef \<Rightarrow> Inl TypeError
      | VNull \<Rightarrow> Inl TypeError
      | _ \<Rightarrow> Inl UnknownError)"

definition typeOf :: "heap \<Rightarrow> jsval \<Rightarrow> error + jsval" where
  "typeOf h v =
     (case v of
        VRef a \<Rightarrow> Inr (getp h a ''type'')
      | VUndef \<Rightarrow> Inl TypeError
      | VNull \<Rightarrow> Inl TypeError
      | _ \<Rightarrow> Inr VUndef)"

definition truthy :: "jsval \<Rightarrow> bool" where
  "truthy v = (v \<noteq> VUndef \<and> v \<noteq> VNull \<and> v \<noteq> VBool False \<and> v \<noteq> VNum 0 \<and> v \<noteq> VStr [])"

text \<open>Every node literal of the source starts with the same five properties.\<close>

definition mkNode :: "string \<Rightarrow> jsval \<Rightarrow> int \<Rightarrow> int \<Rightarrow> jsstring \<Rightarrow> obj \<Rightarrow> obj" where
  "mkNode ty parent start endp raw rest =
     [(''type'', S ty), (''parent'', parent), (''start'', VNum start),
      (''end'', VNum endp), (''raw'', VStr raw)] @ rest"

definition isClassSetOperand :: "heap \<Rightarrow> jsval \<Rightarrow> bool" where
  "isClassSetOperand h v =
     (let t = field h v ''type'' in
      t = S ''Character'' \<or> t = S ''CharacterSet'' \<or> t = S ''CharacterClass'' \<or>
      t = S ''ExpressionCharacterClass'' \<or> t = S ''ClassStringDisjunction'')"

definition onRegExpFlags ::
  "int \<Rightarrow> int \<Rightarrow> bool \<Rightarrow> bool \<Rightarrow> bool \<Rightarrow> bool \<Rightarrow> bool \<Rightarrow> bool \<Rightarrow> bool \<Rightarrow> bool \<Rightarrow>
   pstate \<Rightarrow> error + pstate" where
  "onRegExpFlags start endp global ignoreCase multiline unicode sticky dotAll hasIndices
     unicodeSets st =
     Inr (st\<lparr>flags := VRef (length (heap st)),
             heap := heap st @
               [mkNode ''Flags'' VNull start endp (sliceStr (source st) start endp)
                  [(''global'', VBool global), (''ignoreCase'', VBool ignoreCase),
                   (''multiline'', VBool multiline), (''unicode'', VBool unicode),
                   (''sticky'', VBool sticky), (''dotAll'', VBool dotAll),
                   (''hasIndices'', VBool hasIndices),
                   (''unicodeSets'', VBool unicodeSets)]]\<rparr>)"

definition onPatternEnter :: "int \<Rightarrow> pstate \<Rightarrow> error + pstate" where
  "onPatternEnter start st =
     Inr (st\<lparr>node := VRef (length (heap st)), backreferences := [], capturingGroups := [],
             heap := heap st @
               [mkNode ''Pattern'' VNull start start [] [(''alternatives'', VArr [])]]\<rparr>)"

text \<open>
  The loop of \<open>onPatternLeave\<close>. \<open>this._capturingGroups[ref - 1]\<close> is \<open>undefined\<close> outside
  the array; \<open>group.references.push\<close> on \<open>undefined\<close> is a TypeError.
\<close>

definition isNumber :: "jsval \<Rightarrow> bool" where
  "isNumber v = (case v of VNum _ \<Rightarrow> True | VInf \<Rightarrow> True | VNegInf \<Rightarrow> True | _ \<Rightarrow> False)"

definition groupAt :: "addr list \<Rightarrow> jsval \<Rightarrow> jsval" where
  "groupAt gs ref =
     (case ref of
        VNum k \<Rightarrow> (if 1 \<le> k \<and> k \<le> int (length gs) then VRef (gs ! nat (k - 1)) else VUndef)
      | _ \<Rightarrow> VUndef)"

definition matchedGroups :: "heap \<Rightarrow> addr list \<Rightarrow> jsval \<Rightarrow> jsval list" where
  "matchedGroups h gs ref =
     (if isNumber ref then [groupAt gs ref]
      else map VRef (filter (\<lambda>g. getp h g ''name'' = ref) gs))"

fun pushReference :: "addr \<Rightarrow> jsval list \<Rightarrow> heap \<Rightarrow> error + heap" where
  "pushReference reference [] h = Inr h"
| "pushReference reference (grp # groups) h =
     (case grp of
        VRef g \<Rightarrow>
          bindE (pushp h g ''references'' (VRef reference)) (pushReference reference groups)
      | _ \<Rightarrow> Inl TypeError)"

definition resolveReference :: "addr list \<Rightarrow> addr \<Rightarrow> heap \<Rightarrow> error + heap" where
  "resolveReference gs reference h =
     (let ref = getp h reference ''ref'';
          groups = matchedGroups h gs ref;
          h1 = (if length groups = 1
                then setp (setp h reference ''ambiguous'' (VBool False))
                       reference ''resolved'' (hd groups)
                else setp (setp h reference ''ambiguous'' (VBool True))
                       reference ''resolved'' (VArr groups))
      in pushReference reference groups h1)"

fun resolveAll :: "addr list \<Rightarrow> addr list \<Rightarrow> heap \<Rightarrow> error + heap" where
  "resolveAll gs [] h = Inr h"
| "resolveAll gs (reference # rest) h =
     bindE (resolveReference gs reference h) (resolveAll gs rest)"

definition onPatternLeave :: "int \<Rightarrow> int \<Rightarrow> pstate \<Rightarrow> error + pstate" where
  "onPatternLeave start endp st =
     (case node st of
        VRef n \<Rightarrow>
          (let h1 = setp (heap st) n ''end'' (VNum endp);
               h2 = setp h1 n ''raw'' (VStr (sliceStr (source st) start endp))
           in bindE (resolveAll (capturingGroups st) (backreferences st) h2)
                (\<lambda>h3. Inr (st\<lparr>heap := h3\<rparr>)))
      | _ \<Rightarrow> Inl TypeError)"

text \<open>The pattern shared by every Leave handler: finalise the node, pop the cursor.\<close>

definition leaveNode :: "addr \<Rightarrow> int \<Rightarrow> int \<Rightarrow> pstate \<Rightarrow> pstate" where
  "leaveNode n start endp st =
     (let h1 = setp (heap st) n ''end'' (VNum endp);
          h2 = setp h1 n ''raw'' (VStr (sliceStr (source st) start endp))
      in st\<lparr>node := getp h2 n ''parent'', heap := h2\<rparr>)"

definition onAlternativeEnter :: "int \<Rightarrow> pstate \<Rightarrow> error + pstate" where
  "onAlternativeEnter start st =
     withCursor st (\<lambda>parent.
       let h = heap st; t = getp h parent ''type'' in
       if t \<noteq> S ''Assertion'' \<and> t \<noteq> S ''CapturingGroup'' \<and> t \<noteq> S ''Group'' \<and>
          t \<noteq> S ''Pattern''
       then Inl UnknownError
       else bindE
         (pushp (h @ [mkNode ''Alternative'' (VRef parent) start start []
                        [(''elements'', VArr [])]])
            parent ''alternatives'' (VRef (length h)))
         (\<lambda>h2. Inr (st\<lparr>node := VRef (length h), heap := h2\<rparr>)))"

definition onAlternativeLeave :: "int \<Rightarrow> int \<Rightarrow> pstate \<Rightarrow> error + pstate" where
  "onAlternativeLeave start endp st =
     withCursor st (\<lambda>n.
       if getp (heap st) n ''type'' \<noteq> S ''Alternative'' then Inl UnknownError
       else Inr (leaveNode n start endp st))"

definition onGroupEnter :: "int \<Rightarrow> pstate \<Rightarrow> error + pstate" where
  "onGroupEnter start st =
     withCursor st (\<lambda>parent.
       let h = heap st in
       if getp h parent ''type'' \<noteq> S ''Alternative'' then Inl UnknownError
       else bindE
         (pushp (h @ [mkNode ''Group'' (VRef parent) start start []
                        [(''modifiers'', VNull), (''alternatives'', VArr [])]])
            parent ''elements'' (VRef (length h)))
         (\<lambda>h2. Inr (st\<lparr>node := VRef (length h), heap := h2\<rparr>)))"

text \<open>
  \<open>node.type !== T || node.parent.type !== P\<close>: the second test is only evaluated when
  the first is false.
\<close>

definition leaveChecked :: "string \<Rightarrow> string list \<Rightarrow> int \<Rightarrow> int \<Rightarrow> pstate \<Rightarrow> error + pstate" where
  "leaveChecked ty parentTypes start endp st =
     withCursor st (\<lambda>n.
       if getp (heap st) n ''type'' \<noteq> S ty then Inl UnknownError
       else bindE (typeOf (heap st) (getp (heap st) n ''parent''))
         (\<lambda>pt. if pt \<notin> set (map S parentTypes) then Inl UnknownError
               else Inr (leaveNode n start endp st)))"

definition onGroupLeave :: "int \<Rightarrow> int \<Rightarrow> pstate \<Rightarrow> error + pstate" where
  "onGroupLeave start endp st = leaveChecked ''Group'' [''Alternative''] start endp st"

definition onModifiersEnter :: "int \<Rightarrow> pstate \<Rightarrow> error + pstate" where
  "onModifiersEnter start st =
     withCursor st (\<lambda>parent.
       let h = heap st in
       if getp h parent ''type'' \<noteq> S ''Group'' then Inl UnknownError
       else Inr (st\<lparr>node := VRef (length h),
                    heap := setp
                      (h @ [mkNode ''Modifiers'' (VRef parent) start start []
                              [(''add'', VNull), (''remove'', VNull)]])
                      parent ''modifiers'' (VRef (length h))\<rparr>))"

definition onModifiersLeave :: "int \<Rightarrow> int \<Rightarrow> pstate \<Rightarrow> error + pstate" where
  "onModifiersLeave start endp st = leaveChecked ''Modifiers'' [''Group''] start endp st"

definition modifierFlags ::
  "string \<Rightarrow> int \<Rightarrow> int \<Rightarrow> bool \<Rightarrow> bool \<Rightarrow> bool \<Rightarrow> pstate \<Rightarrow> error + pstate" where
  "modifierFlags which start endp ignoreCase multiline dotAll st =
     withCursor st (\<lambda>parent.
       let h = heap st in
       if getp h parent ''type'' \<noteq> S ''Modifiers'' then Inl UnknownError
       else Inr (st\<lparr>heap := setp
                      (h @ [mkNode ''ModifierFlags'' (VRef parent) start endp
                              (sliceStr (source st) start endp)
                              [(''ignoreCase'', VBool ignoreCase),
                               (''multiline'', VBool multiline),
                               (''dotAll'', VBool dotAll)]])
                      parent which (VRef (length h))\<rparr>))"

definition onAddModifiers ::
  "int \<Rightarrow> int \<Rightarrow> bool \<Rightarrow> bool \<Rightarrow> bool \<Rightarrow> pstate \<Rightarrow> error + pstate" where
  "onAddModifiers = modifierFlags ''add''"

definition onRemoveModifiers ::
  "int \<Rightarrow> int \<Rightarrow> bool \<Rightarrow> bool \<Rightarrow> bool \<Rightarrow> pstate \<Rightarrow> error + pstate" where
  "onRemoveModifiers = modifierFlags ''remove''"

definition onCapturingGroupEnter :: "int \<Rightarrow> jsval \<Rightarrow> pstate \<Rightarrow> error + pstate" where
  "onCapturingGroupEnter start name st =
     withCursor st (\<lambda>parent.
       let h = heap st in
       if getp h parent ''type'' \<noteq> S ''Alternative'' then Inl UnknownError
       else bindE
         (pushp (h @ [mkNode ''CapturingGroup'' (VRef parent) start start []
                        [(''name'', name), (''alternatives'', VArr []),
                         (''references'', VArr [])]])
            parent ''elements'' (VRef (length h)))
         (\<lambda>h2. Inr (st\<lparr>node := VRef (length h),
                        capturingGroups := capturingGroups st @ [length h],
                        heap := h2\<rparr>)))"

definition onCapturingGroupLeave :: "int \<Rightarrow> int \<Rightarrow> pstate \<Rightarrow> error + pstate" where
  "onCapturingGroupLeave start endp st =
     leaveChecked ''CapturingGroup'' [''Alternative''] start endp st"

text \<open>
  \<open>onQuantifier\<close> reads \<open>element.start\<close>, a number in every node the assembler creates.
\<close>

definition onQuantifier ::
  "int \<Rightarrow> int \<Rightarrow> jsval \<Rightarrow> jsval \<Rightarrow> bool \<Rightarrow> pstate \<Rightarrow> error + pstate" where
  "onQuantifier start endp qmin qmax greedy st =
     withCursor st (\<lambda>parent.
       if getp (heap st) parent ''type'' \<noteq> S ''Alternative'' then Inl UnknownError
       else bindE (popp (heap st) parent ''elements'')
         (\<lambda>(element, h1).
            case element of
              VRef e \<Rightarrow>
                if getp h1 e ''type'' = S ''Quantifier'' \<or>
                   (getp h1 e ''type'' = S ''Assertion'' \<and>
                    getp h1 e ''kind'' \<noteq> S ''lookahead'')
                then Inl UnknownError
                else
                  (case getp h1 e ''start'' of
                     VNum elementStart \<Rightarrow>
                       bindE
                         (pushp (h1 @ [mkNode ''Quantifier'' (VRef parent) elementStart endp
                                         (sliceStr (source st) elementStart endp)
                                         [(''min'', qmin), (''max'', qmax),
                                          (''greedy'', VBool greedy),
                                          (''element'', element)]])
                            parent ''elements'' (VRef (length h1)))
                         (\<lambda>h2. Inr (st\<lparr>heap := setp h2 e ''parent'' (VRef (length h1))\<rparr>))
                   | _ \<Rightarrow> Inl TypeError)
            | VUndef \<Rightarrow> Inl UnknownError
            | VNull \<Rightarrow> Inl UnknownError
            | _ \<Rightarrow> Inl TypeError))"

definition onLookaroundAssertionEnter ::
  "int \<Rightarrow> string \<Rightarrow> bool \<Rightarrow> pstate \<Rightarrow> error + pstate" where
  "onLookaroundAssertionEnter start kind negate st =
     withCursor st (\<lambda>parent.
       let h = heap st in
       if getp h parent ''type'' \<noteq> S ''Alternative'' then Inl UnknownError
       else bindE
         (pushp (h @ [mkNode ''Assertion'' (VRef parent) start start []
                        [(''kind'', S kind), (''negate'', VBool negate),
                         (''alternatives'', VArr [])]])
            parent ''elements'' (VRef (length h)))
         (\<lambda>h2. Inr (st\<lparr>node := VRef (length h), heap := h2\<rparr>)))"

definition onLookaroundAssertionLeave :: "int \<Rightarrow> int \<Rightarrow> pstate \<Rightarrow> error + pstate" where
  "onLookaroundAssertionLeave start endp st =
     leaveChecked ''Assertion'' [''Alternative''] start endp st"

text \<open>
  The leaf handlers: a finished node is pushed onto \<open>parent.elements\<close>, the cursor stays.
\<close>

definition pushLeaf ::
  "string list \<Rightarrow> string \<Rightarrow> int \<Rightarrow> int \<Rightarrow> obj \<Rightarrow> pstate \<Rightarrow> error + pstate" where
  "pushLeaf parentTypes ty start endp rest st =
     withCursor st (\<lambda>parent.
       let h = heap st in
       if getp h parent ''type'' \<notin> set (map S parentTypes) then Inl UnknownError
       else bindE
         (pushp (h @ [mkNode ty (VRef parent) start endp (sliceStr (source st) start endp) rest])
            parent ''elements'' (VRef (length h)))
         (\<lambda>h2. Inr (st\<lparr>heap := h2\<rparr>)))"

definition onEdgeAssertion :: "int \<Rightarrow> int \<Rightarrow> string \<Rightarrow> pstate \<Rightarrow> error + pstate" where
  "onEdgeAssertion start endp kind st =
     pushLeaf [''Alternative''] ''Assertion'' start endp [(''kind'', S kind)] st"

definition onWordBoundaryAssertion ::
  "int \<Rightarrow> int \<Rightarrow> string \<Rightarrow> bool \<Rightarrow> pstate \<Rightarrow> error + pstate" where
  "onWordBoundaryAssertion start endp kind negate st =
     pushLeaf [''Alternative''] ''Assertion'' start endp
       [(''kind'', S kind), (''negate'', VBool negate)] st"

definition onAnyCharacterSet :: "int \<Rightarrow> int \<Rightarrow> string \<Rightarrow> pstate \<Rightarrow> error + pstate" where
  "onAnyCharacterSet start endp kind st =
     pushLeaf [''Alternative''] ''CharacterSet'' start endp [(''kind'', S kind)] st"

definition onEscapeCharacterSet ::
  "int \<Rightarrow> int \<Rightarrow> string \<Rightarrow> bool \<Rightarrow> pstate \<Rightarrow> error + pstate" where
  "onEscapeCharacterSet start endp kind negate st =
     pushLeaf [''Alternative'', ''CharacterClass''] ''CharacterSet'' start endp
       [(''kind'', S kind), (''negate'', VBool negate)] st"

definition onUnicodePropertyCharacterSet ::
  "int \<Rightarrow> int \<Rightarrow> string \<Rightarrow> jsstring \<Rightarrow> jsval \<Rightarrow> bool \<Rightarrow> bool \<Rightarrow> pstate \<Rightarrow> error + pstate" where
  "onUnicodePropertyCharacterSet start endp kind key val negate strings st =
     withCursor st (\<lambda>parent.
       let h = heap st; t = getp h parent ''type'' in
       if t \<noteq> S ''Alternative'' \<and> t \<noteq> S ''CharacterClass'' then Inl UnknownError
       else if strings \<and>
               ((t = S ''CharacterClass'' \<and> \<not> truthy (getp h parent ''unicodeSets'')) \<or>
                negate \<or> val \<noteq> VNull)
       then Inl UnknownError
       else bindE
         (pushp (h @ [mkNode ''CharacterSet'' (VRef parent) start endp
                        (sliceStr (source st) start endp)
                        [(''kind'', S kind), (''strings'', VBool strings),
                         (''key'', VStr key), (''value'', val),
                         (''negate'', VBool negate)]])
            parent ''elements'' (VRef (length h)))
         (\<lambda>h2. Inr (st\<lparr>heap := h2\<rparr>)))"

definition onCharacter :: "int \<Rightarrow> int \<Rightarrow> int \<Rightarrow> pstate \<Rightarrow> error + pstate" where
  "onCharacter start endp val st =
     pushLeaf [''Alternative'', ''CharacterClass'', ''StringAlternative''] ''Character''
       start endp [(''value'', VNum val)] st"

definition onBackreference :: "int \<Rightarrow> int \<Rightarrow> jsval \<Rightarrow> pstate \<Rightarrow> error + pstate" where
  "onBackreference start endp ref st =
     bindE
       (pushLeaf [''Alternative''] ''Backreference'' start endp
          [(''ref'', ref), (''ambiguous'', VBool False),
           (''resolved'', DUMMY_CAPTURING_GROUP)] st)
       (\<lambda>st1. Inr (st1\<lparr>backreferences := backreferences st @ [length (heap st)]\<rparr>))"

definition onCharacterClassEnter :: "int \<Rightarrow> bool \<Rightarrow> bool \<Rightarrow> pstate \<Rightarrow> error + pstate" where
  "onCharacterClassEnter start negate unicodeSets st =
     withCursor st (\<lambda>parent.
       let h = heap st; t = getp h parent ''type'' in
       if t = S ''Alternative'' \<or>
          (t = S ''CharacterClass'' \<and> truthy (getp h parent ''unicodeSets'') \<and> unicodeSets)
       then bindE
         (pushp (h @ [mkNode ''CharacterClass'' (VRef parent) start start []
                        [(''unicodeSets'', VBool unicodeSets), (''negate'', VBool negate),
                         (''elements'', VArr [])]])
            parent ''elements'' (VRef (length h)))
         (\<lambda>h2. Inr (st\<lparr>node := VRef (length h), heap := h2\<rparr>))
       else Inl UnknownError)"

definition onCharacterClassLeave :: "int \<Rightarrow> int \<Rightarrow> pstate \<Rightarrow> error + pstate" where
  "onCharacterClassLeave start endp st =
     withCursor st (\<lambda>n.
       if getp (heap st) n ''type'' \<noteq> S ''CharacterClass'' then Inl UnknownError
       else bindE (typeOf (heap st) (getp (heap st) n ''parent''))
         (\<lambda>pt.
            if pt \<noteq> S ''Alternative'' \<and> pt \<noteq> S ''CharacterClass'' then Inl UnknownError
            else
              (let st1 = leaveNode n start endp st; h = heap st1 in
               case map_of (expressionBufferMap st) n of
                 None \<Rightarrow> Inr st1
               | Some expression \<Rightarrow>
                   (case getp h n ''elements'' of
                      VArr els \<Rightarrow>
                        if length els > 0 then Inl UnknownError
                        else
                          (case getp h n ''parent'' of
                             VRef parent \<Rightarrow>
                               (let newNode = length h;
                                    h1 = h @ [[(''type'', S ''ExpressionCharacterClass''),
                                               (''parent'', VRef parent),
                                               (''start'', getp h n ''start''),
                                               (''end'', getp h n ''end''),
                                               (''raw'', getp h n ''raw''),
                                               (''negate'', getp h n ''negate''),
                                               (''expression'', VRef expression)]];
                                    h2 = setp h1 expression ''parent'' (VRef newNode)
                                in bindE (popp h2 parent ''elements'')
                                     (\<lambda>(popped, h3).
                                        if popped \<noteq> VRef n then Inl UnknownError
                                        else bindE
                                          (pushp h3 parent ''elements'' (VRef newNode))
                                          (\<lambda>h4. Inr (st1\<lparr>expressionBufferMap :=
                                                           AList.delete n
                                                             (expressionBufferMap st),
                                                         heap := h4\<rparr>))))
                           | _ \<Rightarrow> Inl TypeError)
                    | _ \<Rightarrow> Inl TypeError))))"

text \<open>
  \<open>!max || max.type !== "Character"\<close>: an element of an \<open>elements\<close> array is a node object
  or, after \<open>pop()\<close> on an empty array, \<open>undefined\<close>.
\<close>

definition isCharacter :: "heap \<Rightarrow> jsval \<Rightarrow> bool" where
  "isCharacter h v = (truthy v \<and> field h v ''type'' = S ''Character'')"

definition HYPHEN_MINUS :: int where
  "HYPHEN_MINUS = 45"

definition setParent :: "heap \<Rightarrow> jsval \<Rightarrow> addr \<Rightarrow> error + heap" where
  "setParent h v p = (case v of VRef a \<Rightarrow> Inr (setp h a ''parent'' (VRef p)) | _ \<Rightarrow> Inl TypeError)"

definition onCharacterClassRange :: "int \<Rightarrow> int \<Rightarrow> pstate \<Rightarrow> error + pstate" where
  "onCharacterClassRange start endp st =
     withCursor st (\<lambda>parent.
       if getp (heap st) parent ''type'' \<noteq> S ''CharacterClass'' then Inl UnknownError
       else bindE (popp (heap st) parent ''elements'')
         (\<lambda>(maxE, h1).
            if \<not> isCharacter h1 maxE then Inl UnknownError
            else bindE
              (if \<not> truthy (getp h1 parent ''unicodeSets'')
               then bindE (popp h1 parent ''elements'')
                 (\<lambda>(hyphen, h2).
                    if \<not> isCharacter h2 hyphen \<or>
                       field h2 hyphen ''value'' \<noteq> VNum HYPHEN_MINUS
                    then Inl UnknownError else Inr h2)
               else Inr h1)
              (\<lambda>h2. bindE (popp h2 parent ''elements'')
                 (\<lambda>(minE, h3).
                    if \<not> isCharacter h3 minE then Inl UnknownError
                    else
                      (let a = length h3;
                           h4 = h3 @ [mkNode ''CharacterClassRange'' (VRef parent) start endp
                                        (sliceStr (source st) start endp)
                                        [(''min'', minE), (''max'', maxE)]]
                       in bindE (setParent h4 minE a)
                            (\<lambda>h5. bindE (setParent h5 maxE a)
                               (\<lambda>h6. bindE (pushp h6 parent ''elements'' (VRef a))
                                  (\<lambda>h7. Inr (st\<lparr>heap := h7\<rparr>)))))))))"

text \<open>
  \<open>onClassIntersection\<close> and \<open>onClassSubtraction\<close> differ in the node type they create and
  in the operator type they refuse as left operand.
\<close>

definition classSetOperation ::
  "string \<Rightarrow> string \<Rightarrow> int \<Rightarrow> int \<Rightarrow> pstate \<Rightarrow> error + pstate" where
  "classSetOperation ty other start endp st =
     withCursor st (\<lambda>parent.
       if getp (heap st) parent ''type'' \<noteq> S ''CharacterClass'' \<or>
          \<not> truthy (getp (heap st) parent ''unicodeSets'')
       then Inl UnknownError
       else bindE (popp (heap st) parent ''elements'')
         (\<lambda>(right, h1).
            bindE
              (case map_of (expressionBufferMap st) parent of
                 Some buffered \<Rightarrow> Inr (VRef buffered, h1)
               | None \<Rightarrow> popp h1 parent ''elements'')
              (\<lambda>(left, h2).
                 if \<not> truthy left \<or> \<not> truthy right \<or> field h2 left ''type'' = S other \<or>
                    (field h2 left ''type'' \<noteq> S ty \<and> \<not> isClassSetOperand h2 left) \<or>
                    \<not> isClassSetOperand h2 right
                 then Inl UnknownError
                 else
                   (let a = length h2;
                        h3 = h2 @ [mkNode ty (VRef parent) start endp
                                     (sliceStr (source st) start endp)
                                     [(''left'', left), (''right'', right)]]
                    in bindE (setParent h3 left a)
                         (\<lambda>h4. bindE (setParent h4 right a)
                            (\<lambda>h5. Inr (st\<lparr>expressionBufferMap :=
                                             AList.update parent a (expressionBufferMap st),
                                           heap := h5\<rparr>)))))))"

definition onClassIntersection :: "int \<Rightarrow> int \<Rightarrow> pstate \<Rightarrow> error + pstate" where
  "onClassIntersection = classSetOperation ''ClassIntersection'' ''ClassSubtraction''"

definition onClassSubtraction :: "int \<Rightarrow> int \<Rightarrow> pstate \<Rightarrow> error + pstate" where
  "onClassSubtraction = classSetOperation ''ClassSubtraction'' ''ClassIntersection''"

definition onClassStringDisjunctionEnter :: "int \<Rightarrow> pstate \<Rightarrow> error + pstate" where
  "onClassStringDisjunctionEnter start st =
     withCursor st (\<lambda>parent.
       let h = heap st in
       if getp h parent ''type'' \<noteq> S ''CharacterClass'' \<or>
          \<not> truthy (getp h parent ''unicodeSets'')
       then Inl UnknownError
       else bindE
         (pushp (h @ [mkNode ''ClassStringDisjunction'' (VRef parent) start start []
                        [(''alternatives'', VArr [])]])
            parent ''elements'' (VRef (length h)))
         (\<lambda>h2. Inr (st\<lparr>node := VRef (length h), heap := h2\<rparr>)))"

definition onClassStringDisjunctionLeave :: "int \<Rightarrow> int \<Rightarrow> pstate \<Rightarrow> error + pstate" where
  "onClassStringDisjunctionLeave start endp st =
     leaveChecked ''ClassStringDisjunction'' [''CharacterClass''] start endp st"

definition onStringAlternativeEnter :: "int \<Rightarrow> pstate \<Rightarrow> error + pstate" where
  "onStringAlternativeEnter start st =
     withCursor st (\<lambda>parent.
       let h = heap st in
       if getp h parent ''type'' \<noteq> S ''ClassStringDisjunction'' then Inl UnknownError
       else bindE
         (pushp (h @ [mkNode ''StringAlternative'' (VRef parent) start start []
                        [(''elements'', VArr [])]])
            parent ''alternatives'' (VRef (length h)))
         (\<lambda>h2. Inr (st\<lparr>node := VRef (length h), heap := h2\<rparr>)))"

definition onStringAlternativeLeave :: "int \<Rightarrow> int \<Rightarrow> pstate \<Rightarrow> error + pstate" where
  "onStringAlternativeLeave start endp st =
     withCursor st (\<lambda>n.
       if getp (heap st) n ''type'' \<noteq> S ''StringAlternative'' then Inl UnknownError
       else Inr (leaveNode n start endp st))"

subsection \<open>The builder events\<close>

text \<open>
  The validator drives the assembler through these callbacks; one parse is the list of
  calls it makes, in order.
\<close>

datatype (plugins only: code) event =
    RegExpFlags int int bool bool bool bool bool bool bool bool
  | PatternEnter int
  | PatternLeave int int
  | AlternativeEnter int
  | AlternativeLeave int int
  | GroupEnter int
  | GroupLeave int int
  | ModifiersEnter int
  | ModifiersLeave int int
  | AddModifiers int int bool bool bool
  | RemoveModifiers int int bool bool bool
  | CapturingGroupEnter int jsval
  | CapturingGroupLeave int int
  | Quantifier int int jsval jsval bool
  | LookaroundAssertionEnter int string bool
  | LookaroundAssertionLeave int int
  | EdgeAssertion int int string
  | WordBoundaryAssertion int int string bool
  | AnyCharacterSet int int string
  | EscapeCharacterSet int int string bool
  | UnicodePropertyCharacterSet int int string jsstring jsval bool bool
  | Character int int int
  | Backreference int int jsval
  | CharacterClassEnter int bool bool
  | CharacterClassLeave int int
  | CharacterClassRange int int
  | ClassIntersection int int
  | ClassSubtraction int int
  | ClassStringDisjunctionEnter int
  | ClassStringDisjunctionLeave int int
  | StringAlternativeEnter int
  | StringAlternativeLeave int int

fun handle :: "event \<Rightarrow> pstate \<Rightarrow> error + pstate" where
  "handle (RegExpFlags s e g i m u y d h v) = onRegExpFlags s e g i m u y d h v"
| "handle (PatternEnter s) = onPatternEnter s"
| "handle (PatternLeave s e) = onPatternLeave s e"
| "handle (AlternativeEnter s) = onAlternativeEnter s"
| "handle (AlternativeLeave s e) = onAlternativeLeave s e"
| "handle (GroupEnter s) = onGroupEnter s"
| "handle (GroupLeave s e) = onGroupLeave s e"
| "handle (ModifiersEnter s) = onModifiersEnter s"
| "handle (ModifiersLeave s e) = onModifiersLeave s e"
| "handle (AddModifiers s e i m d) = onAddModifiers s e i m d"
| "handle (RemoveModifiers s e i m d) = onRemoveModifiers s e i m d"
| "handle (CapturingGroupEnter s n) = onCapturingGroupEnter s n"
| "handle (CapturingGroupLeave s e) = onCapturingGroupLeave s e"
| "handle (Quantifier s e lo hi g) = onQuantifier s e lo hi g"
| "handle (LookaroundAssertionEnter s k n) = onLookaroundAssertionEnter s k n"
| "handle (LookaroundAssertionLeave s e) = onLookaroundAssertionLeave s e"
| "handle (EdgeAssertion s e k) = onEdgeAssertion s e k"
| "handle (WordBoundaryAssertion s e k n) = onWordBoundaryAssertion s e k n"
| "handle (AnyCharacterSet s e k) = onAnyCharacterSet s e k"
| "handle (EscapeCharacterSet s e k n) = onEscapeCharacterSet s e k n"
| "handle (UnicodePropertyCharacterSet s e k key v n str) =
     onUnicodePropertyCharacterSet s e k key v n str"
| "handle (Character s e v) = onCharacter s e v"
| "handle (Backreference s e r) = onBackreference s e r"
| "handle (CharacterClassEnter s n u) = onCharacterClassEnter s n u"
| "handle (CharacterClassLeave s e) = onCharacterClassLeave s e"
| "handle (CharacterClassRange s e) = onCharacterClassRange s e"
| "handle (ClassIntersection s e) = onClassIntersection s e"
| "handle (ClassSubtraction s e) = onClassSubtraction s e"
| "handle (ClassStringDisjunctionEnter s) = onClassStringDisjunctionEnter s"
| "handle (ClassStringDisjunctionLeave s e) = onClassStringDisjunctionLeave s e"
| "handle (StringAlternativeEnter s) = onStringAlternativeEnter s"
| "handle (StringAlternativeLeave s e) = onStringAlternativeLeave s e"

fun run :: "event list \<Rightarrow> pstate \<Rightarrow> error + pstate" where
  "run [] st = Inr st"
| "run (ev # evs) st = bindE (handle ev st) (run evs)"

section \<open>The fast path (fast-paths.ts)\<close>

text \<open>\<open>/^[a-zA-Z0-9_]+$/\<close>, tested on UTF-16 code units.\<close>

definition isWordUnit :: "nat \<Rightarrow> bool" where
  "isWordUnit c =
     ((0x61 \<le> c \<and> c \<le> 0x7A) \<or> (0x41 \<le> c \<and> c \<le> 0x5A) \<or> (0x30 \<le> c \<and> c \<le> 0x39) \<or>
      c = 0x5F)"

definition isSimpleLiteral :: "jsstring \<Rightarrow> bool" where
  "isSimpleLiteral pattern = (pattern \<noteq> [] \<and> list_all isWordUnit pattern)"

text \<open>
  The first loop of \<open>createSimpleLiteralAST\<close>: one Character object per code unit, at
  offset \<open>start + i\<close>, with \<open>parent\<close> still \<open>null\<close>.
\<close>

fun characterObjects :: "jsstring \<Rightarrow> int \<Rightarrow> obj list" where
  "characterObjects [] pos = []"
| "characterObjects (c # cs) pos =
     mkNode ''Character'' VNull pos (pos + 1) [c] [(''value'', VNum (int c))] #
     characterObjects cs (pos + 1)"

text \<open>The second loop: \<open>char.parent = alternative\<close> for every character.\<close>

fun setParents :: "addr list \<Rightarrow> jsval \<Rightarrow> heap \<Rightarrow> heap" where
  "setParents [] parent h = h"
| "setParents (a # as) parent h = setParents as parent (setp h a ''parent'' parent)"

definition createSimpleLiteralAST :: "jsstring \<Rightarrow> int \<Rightarrow> int \<Rightarrow> heap \<Rightarrow> addr \<times> heap" where
  "createSimpleLiteralAST pattern start endp h =
     (let characters = [length h ..< length h + length pattern];
          h1 = h @ characterObjects pattern start;
          alternative = length h1;
          h2 = h1 @ [mkNode ''Alternative'' VNull start endp pattern
                       [(''elements'', VArr (map VRef characters))]];
          h3 = setParents characters (VRef alternative) h2;
          result = length h3;
          h4 = h3 @ [mkNode ''Pattern'' VNull start endp pattern
                       [(''alternatives'', VArr [VRef alternative])]];
          h5 = setp h4 alternative ''parent'' (VRef result)
      in (result, h5))"

definition tryFastPath :: "jsstring \<Rightarrow> int \<Rightarrow> int \<Rightarrow> heap \<Rightarrow> (addr \<times> heap) option" where
  "tryFastPath pattern start endp h =
     (let patternStr = sliceStr pattern start endp
      in if isSimpleLiteral patternStr
         then Some (createSimpleLiteralAST patternStr start endp h)
         else None)"

text \<open>\<open>pattern.includes(c)\<close> for a string \<open>c\<close> of one code unit.\<close>

definition includesUnit :: "jsstring \<Rightarrow> nat \<Rightarrow> bool" where
  "includesUnit pattern c = (c \<in> set pattern)"

definition getPatternComplexity :: "jsstring \<Rightarrow> nat" where
  "getPatternComplexity pattern =
     (if includesUnit pattern 0x28 then 10 else 0) +
     (if includesUnit pattern 0x5B then 5 else 0) +
     (if includesUnit pattern 0x7B then 5 else 0) +
     (if includesUnit pattern 0x5C then 3 else 0) +
     (if includesUnit pattern 0x7C then 2 else 0) +
     (if includesUnit pattern 0x2A \<or> includesUnit pattern 0x2B then 2 else 0) +
     (if includesUnit pattern 0x3F then 1 else 0)"

definition shouldCache :: "jsstring \<Rightarrow> bool" where
  "shouldCache pattern = (getPatternComplexity pattern \<ge> 5 \<or> length pattern > 10)"

section \<open>The parse cache (cache.ts)\<close>

subsection \<open>LRUCache\<close>

text \<open>
  A \<open>Map\<close> from key strings to entries, in insertion order. \<open>Date.now()\<close> is an input of
  every operation that reads the clock. The cached values are AST root objects.
\<close>

record lruCache =
  entries :: "(jsstring \<times> (addr \<times> int)) list"
  maxSize :: nat

definition lruGet :: "int \<Rightarrow> jsstring \<Rightarrow> lruCache \<Rightarrow> addr option \<times> lruCache" where
  "lruGet now key c =
     (case map_of (entries c) key of
        Some (v, _) \<Rightarrow> (Some v, c\<lparr>entries := AList.update key (v, now) (entries c)\<rparr>)
      | None \<Rightarrow> (None, c))"

text \<open>The eviction loop: the first key whose timestamp is strictly below all before it.\<close>

fun oldestKey :: "(jsstring \<times> (addr \<times> int)) list \<Rightarrow> (jsstring \<times> int) option \<Rightarrow> jsstring option" where
  "oldestKey [] best = map_option fst best"
| "oldestKey ((k, (_, t)) # rest) best =
     (case best of
        None \<Rightarrow> oldestKey rest (Some (k, t))
      | Some (_, oldestTime) \<Rightarrow>
          (if t < oldestTime then oldestKey rest (Some (k, t)) else oldestKey rest best))"

definition lruSet :: "int \<Rightarrow> jsstring \<Rightarrow> addr \<Rightarrow> lruCache \<Rightarrow> lruCache" where
  "lruSet now key v c =
     (let es = (if length (entries c) \<ge> maxSize c
                then (case oldestKey (entries c) None of
                        Some k \<Rightarrow> AList.delete k (entries c)
                      | None \<Rightarrow> entries c)
                else entries c)
      in c\<lparr>entries := AList.update key (v, now) es\<rparr>)"

subsection \<open>cloneAST\<close>

text \<open>
  \<open>JSON.stringify\<close> with the replacer of \<open>cloneAST\<close>. The text it produces is kept as the
  tree it denotes. The replacer drops every \<open>parent\<close> property, writes the infinities as
  marker strings, and answers \<open>undefined\<close> for an object it has seen before; an
  \<open>undefined\<close> property is left out, an \<open>undefined\<close> array element becomes \<open>null\<close>.
\<close>

datatype json =
    JNull
  | JBool bool
  | JNum int
  | JStr jsstring
  | JArr "json list"
  | JObj "(string \<times> json) list"

definition objAt :: "heap \<Rightarrow> addr \<Rightarrow> obj" where
  "objAt h a = (if a < length h then h ! a else [])"

text \<open>
  A number as a string. JavaScript writes an integer below \<open>10^21\<close> with all its digits,
  so 21 digits are enough.
\<close>

primrec digits :: "nat \<Rightarrow> int \<Rightarrow> string" where
  "digits 0 n = []"
| "digits (Suc fuel) n =
     (if n < 10 then [''0123456789'' ! nat n]
      else digits fuel (n div 10) @ [''0123456789'' ! nat (n mod 10)])"

definition showInt :: "int \<Rightarrow> string" where
  "showInt i = (if i < 0 then ''-'' @ digits 21 (- i) else digits 21 i)"

text \<open>
  The two loops of the serialisation, over the properties of an object and over the
  elements of an array; \<open>ser\<close> is the serialisation of one property value.
\<close>

fun serializeProps ::
  "(string \<Rightarrow> jsval \<Rightarrow> addr list \<Rightarrow> (json option \<times> addr list) option) \<Rightarrow>
   obj \<Rightarrow> addr list \<Rightarrow> ((string \<times> json) list \<times> addr list) option" where
  "serializeProps ser [] seen = Some ([], seen)"
| "serializeProps ser ((k, v) # ps) seen =
     (case ser k v seen of
        None \<Rightarrow> None
      | Some (r, seen1) \<Rightarrow>
          (case serializeProps ser ps seen1 of
             None \<Rightarrow> None
           | Some (rs, seen2) \<Rightarrow>
               Some ((case r of None \<Rightarrow> rs | Some j \<Rightarrow> (k, j) # rs), seen2)))"

fun serializeElems ::
  "(string \<Rightarrow> jsval \<Rightarrow> addr list \<Rightarrow> (json option \<times> addr list) option) \<Rightarrow>
   nat \<Rightarrow> jsval list \<Rightarrow> addr list \<Rightarrow> (json list \<times> addr list) option" where
  "serializeElems ser i [] seen = Some ([], seen)"
| "serializeElems ser i (v # vs) seen =
     (case ser (showInt (int i)) v seen of
        None \<Rightarrow> None
      | Some (r, seen1) \<Rightarrow>
          (case serializeElems ser (Suc i) vs seen1 of
             None \<Rightarrow> None
           | Some (rs, seen2) \<Rightarrow>
               Some ((case r of None \<Rightarrow> JNull | Some j \<Rightarrow> j) # rs, seen2)))"

primrec serialize ::
  "nat \<Rightarrow> heap \<Rightarrow> string \<Rightarrow> jsval \<Rightarrow> addr list \<Rightarrow> (json option \<times> addr list) option" where
  "serialize 0 h key v seen = None"
| "serialize (Suc fuel) h key v seen =
     (if key = ''parent'' then Some (None, seen)
      else case v of
          VInf \<Rightarrow> Some (Some (JStr (ustr ''___INFINITY___'')), seen)
        | VNegInf \<Rightarrow> Some (Some (JStr (ustr ''___NEG_INFINITY___'')), seen)
        | VRef a \<Rightarrow>
            if a \<in> set seen then Some (None, seen)
            else (case serializeProps (serialize fuel h) (objAt h a) (a # seen) of
                    None \<Rightarrow> None
                  | Some (ps, seen1) \<Rightarrow> Some (Some (JObj ps), seen1))
        | VArr xs \<Rightarrow>
            (case serializeElems (serialize fuel h) 0 xs seen of
               None \<Rightarrow> None
             | Some (js, seen1) \<Rightarrow> Some (Some (JArr js), seen1))
        | VUndef \<Rightarrow> Some (None, seen)
        | VNull \<Rightarrow> Some (Some JNull, seen)
        | VBool b \<Rightarrow> Some (Some (JBool b), seen)
        | VNum i \<Rightarrow> Some (Some (JNum i), seen)
        | VStr s \<Rightarrow> Some (Some (JStr s), seen))"

text \<open>
  \<open>JSON.parse\<close> with the reviver of \<open>cloneAST\<close>: every object of the text is a new object
  of the heap, and a string equal to a marker comes back as the infinity it stands for.
\<close>

fun parseJson :: "json \<Rightarrow> heap \<Rightarrow> jsval \<times> heap"
  and parseProps :: "(string \<times> json) list \<Rightarrow> heap \<Rightarrow> obj \<times> heap"
  and parseElems :: "json list \<Rightarrow> heap \<Rightarrow> jsval list \<times> heap"
where
  "parseJson JNull h = (VNull, h)"
| "parseJson (JBool b) h = (VBool b, h)"
| "parseJson (JNum i) h = (VNum i, h)"
| "parseJson (JStr s) h =
     (if s = ustr ''___INFINITY___'' then VInf
      else if s = ustr ''___NEG_INFINITY___'' then VNegInf
      else VStr s, h)"
| "parseJson (JArr js) h = (let (vs, h1) = parseElems js h in (VArr vs, h1))"
| "parseJson (JObj ps) h = (let (ob, h1) = parseProps ps h in (VRef (length h1), h1 @ [ob]))"
| "parseProps [] h = ([], h)"
| "parseProps ((k, j) # ps) h =
     (let (v, h1) = parseJson j h; (ob, h2) = parseProps ps h1 in ((k, v) # ob, h2))"
| "parseElems [] h = ([], h)"
| "parseElems (j # js) h =
     (let (v, h1) = parseJson j h; (vs, h2) = parseElems js h1 in (v # vs, h2))"

text \<open>\<open>fixParents\<close>, the inner function of \<open>cloneAST\<close>.\<close>

definition isObject :: "jsval \<Rightarrow> bool" where
  "isObject v = (case v of VRef _ \<Rightarrow> True | VArr _ \<Rightarrow> True | _ \<Rightarrow> False)"

text \<open>
  The two loops of \<open>fixParents\<close>, over the keys of an object and over the items of an
  array; \<open>fix\<close> is the recursive call.
\<close>

fun fixParentsKeys ::
  "(jsval \<Rightarrow> jsval \<Rightarrow> heap \<Rightarrow> heap option) \<Rightarrow> addr \<Rightarrow> string list \<Rightarrow> heap \<Rightarrow> heap option" where
  "fixParentsKeys fix a [] h = Some h"
| "fixParentsKeys fix a (key # keys) h =
     (if key = ''parent'' then fixParentsKeys fix a keys h
      else if truthy (getp h a key) \<and> isObject (getp h a key)
      then (case fix (getp h a key) (VRef a) h of
              None \<Rightarrow> None
            | Some h1 \<Rightarrow> fixParentsKeys fix a keys h1)
      else fixParentsKeys fix a keys h)"

fun fixParentsItems ::
  "(jsval \<Rightarrow> jsval \<Rightarrow> heap \<Rightarrow> heap option) \<Rightarrow> jsval list \<Rightarrow> jsval \<Rightarrow> heap \<Rightarrow> heap option" where
  "fixParentsItems fix [] parent h = Some h"
| "fixParentsItems fix (item # items) parent h =
     (case fix item parent h of
        None \<Rightarrow> None
      | Some h1 \<Rightarrow> fixParentsItems fix items parent h1)"

primrec fixParents :: "nat \<Rightarrow> jsval \<Rightarrow> jsval \<Rightarrow> heap \<Rightarrow> heap option" where
  "fixParents 0 n parent h = None"
| "fixParents (Suc fuel) n parent h =
     (case n of
        VRef a \<Rightarrow>
          (let h1 = (if ''type'' \<in> fst ` set (objAt h a) then setp h a ''parent'' parent
                     else h)
           in fixParentsKeys (fixParents fuel) a (map fst (objAt h1 a)) h1)
      | VArr items \<Rightarrow> fixParentsItems (fixParents fuel) items parent h
      | _ \<Rightarrow> Some h)"

definition cloneAST :: "nat \<Rightarrow> addr \<Rightarrow> jsval \<Rightarrow> heap \<Rightarrow> error + (jsval \<times> heap)" where
  "cloneAST fuel n newParent h =
     (case serialize fuel h [] (VRef n) [] of
        None \<Rightarrow> Inl OutOfFuel
      | Some (None, _) \<Rightarrow> Inl SyntaxError
      | Some (Some clonedStr, _) \<Rightarrow>
          (let (cloned, h1) = parseJson clonedStr h
           in case fixParents fuel cloned newParent h1 of
                None \<Rightarrow> Inl OutOfFuel
              | Some h2 \<Rightarrow> Inr (cloned, h2)))"

subsection \<open>generateCacheKey and RegExpParseCache\<close>

text \<open>
  The options object of \<open>generateCacheKey\<close>: each property may be missing, and so may the
  object. A number is written in decimal.
\<close>

record keyOptions =
  optStrict :: "bool option"
  optEcmaVersion :: "int option"
  optUnicode :: "bool option"
  optUnicodeSets :: "bool option"

definition showBool :: "bool \<Rightarrow> string" where
  "showBool b = (if b then ''true'' else ''false'')"

definition generateCacheKey :: "jsstring \<Rightarrow> int \<Rightarrow> int \<Rightarrow> keyOptions option \<Rightarrow> jsstring" where
  "generateCacheKey src start endp options =
     (let optStr =
            (case options of
               Some opts \<Rightarrow>
                 ''|'' @ showBool (case optStrict opts of Some b \<Rightarrow> b | None \<Rightarrow> False) @
                 ''|'' @ showInt (case optEcmaVersion opts of Some v \<Rightarrow> v | None \<Rightarrow> 2025) @
                 ''|'' @ showBool (case optUnicode opts of Some b \<Rightarrow> b | None \<Rightarrow> False) @
                 ''|'' @ showBool (case optUnicodeSets opts of Some b \<Rightarrow> b | None \<Rightarrow> False)
             | None \<Rightarrow> [])
      in sliceStr src start endp @ ustr optStr)"

record parseCache =
  literalCache :: lruCache
  patternCache :: lruCache
  flagsCache :: lruCache
  cacheHits :: nat
  cacheMisses :: nat

definition globalParseCache :: parseCache where
  "globalParseCache =
     \<lparr>literalCache = \<lparr>entries = [], maxSize = 500\<rparr>,
      patternCache = \<lparr>entries = [], maxSize = 1000\<rparr>,
      flagsCache = \<lparr>entries = [], maxSize = 200\<rparr>,
      cacheHits = 0, cacheMisses = 0\<rparr>"

text \<open>
  The getters answer the clone of the cached tree (or nothing), the cache and the heap
  the clone was allocated in.
\<close>

definition getCachedLiteral ::
  "nat \<Rightarrow> int \<Rightarrow> jsstring \<Rightarrow> int \<Rightarrow> int \<Rightarrow> keyOptions option \<Rightarrow> parseCache \<Rightarrow> heap \<Rightarrow>
   error + (jsval option \<times> parseCache \<times> heap)" where
  "getCachedLiteral fuel now src start endp options c h =
     (let key = generateCacheKey src start endp options;
          (cached, lru) = lruGet now key (literalCache c)
      in case cached of
           Some n \<Rightarrow>
             bindE (cloneAST fuel n VNull h)
               (\<lambda>(cloned, h1).
                  Inr (Some cloned,
                       c\<lparr>literalCache := lru, cacheHits := Suc (cacheHits c)\<rparr>, h1))
         | None \<Rightarrow>
             Inr (None, c\<lparr>literalCache := lru, cacheMisses := Suc (cacheMisses c)\<rparr>, h))"

definition setCachedLiteral ::
  "int \<Rightarrow> jsstring \<Rightarrow> int \<Rightarrow> int \<Rightarrow> addr \<Rightarrow> keyOptions option \<Rightarrow> parseCache \<Rightarrow> parseCache" where
  "setCachedLiteral now src start endp literal options c =
     c\<lparr>literalCache :=
         lruSet now (generateCacheKey src start endp options) literal (literalCache c)\<rparr>"

text \<open>\<open>{...options, ...flags}\<close>: the two objects have no property in common.\<close>

definition patternKeyOptions ::
  "(bool option \<times> bool option) option \<Rightarrow> (bool \<times> int) option \<Rightarrow> keyOptions" where
  "patternKeyOptions flagsArg options =
     \<lparr>optStrict = map_option fst options, optEcmaVersion = map_option snd options,
      optUnicode = (case flagsArg of Some (u, _) \<Rightarrow> u | None \<Rightarrow> None),
      optUnicodeSets = (case flagsArg of Some (_, v) \<Rightarrow> v | None \<Rightarrow> None)\<rparr>"

definition getCachedPattern ::
  "nat \<Rightarrow> int \<Rightarrow> jsstring \<Rightarrow> int \<Rightarrow> int \<Rightarrow> (bool option \<times> bool option) option \<Rightarrow>
   (bool \<times> int) option \<Rightarrow> parseCache \<Rightarrow> heap \<Rightarrow>
   error + (jsval option \<times> parseCache \<times> heap)" where
  "getCachedPattern fuel now src start endp flagsArg options c h =
     (let key = generateCacheKey src start endp (Some (patternKeyOptions flagsArg options));
          (cached, lru) = lruGet now key (patternCache c)
      in case cached of
           Some n \<Rightarrow>
             bindE (cloneAST fuel n VNull h)
               (\<lambda>(cloned, h1). Inr (Some cloned, c\<lparr>patternCache := lru\<rparr>, h1))
         | None \<Rightarrow> Inr (None, c\<lparr>patternCache := lru\<rparr>, h))"

definition setCachedPattern ::
  "int \<Rightarrow> jsstring \<Rightarrow> int \<Rightarrow> int \<Rightarrow> addr \<Rightarrow> (bool option \<times> bool option) option \<Rightarrow>
   (bool \<times> int) option \<Rightarrow> parseCache \<Rightarrow> parseCache" where
  "setCachedPattern now src start endp pattern flagsArg options c =
     c\<lparr>patternCache :=
         lruSet now (generateCacheKey src start endp (Some (patternKeyOptions flagsArg options)))
           pattern (patternCache c)\<rparr>"

definition getCachedFlags ::
  "nat \<Rightarrow> int \<Rightarrow> jsstring \<Rightarrow> int \<Rightarrow> int \<Rightarrow> parseCache \<Rightarrow> heap \<Rightarrow>
   error + (jsval option \<times> parseCache \<times> heap)" where
  "getCachedFlags fuel now src start endp c h =
     (let key = sliceStr src start endp;
          (cached, lru) = lruGet now key (flagsCache c)
      in case cached of
           Some n \<Rightarrow>
             bindE (cloneAST fuel n VNull h)
               (\<lambda>(cloned, h1). Inr (Some cloned, c\<lparr>flagsCache := lru\<rparr>, h1))
         | None \<Rightarrow> Inr (None, c\<lparr>flagsCache := lru\<rparr>, h))"

definition setCachedFlags ::
  "int \<Rightarrow> jsstring \<Rightarrow> int \<Rightarrow> int \<Rightarrow> addr \<Rightarrow> parseCache \<Rightarrow> parseCache" where
  "setCachedFlags now src start endp flagsNode c =
     c\<lparr>flagsCache := lruSet now (sliceStr src start endp) flagsNode (flagsCache c)\<rparr>"

section \<open>The parser (class RegExpParser of parser.ts)\<close>

text \<open>
  \<open>RegExpValidator\<close> is a parameter of the parser: given the parser's options and the
  arguments of the call, it either rejects the input or makes the calls of an event list
  on the assembler. The result of a parse is the node returned, the parser's state and
  the global cache.
\<close>

type_synonym validator = "bool \<Rightarrow> int \<Rightarrow> jsstring \<Rightarrow> int \<Rightarrow> int \<Rightarrow> error + event list"

datatype flagsArgument =
    NoFlags
  | UFlag bool
  | FlagsObject "bool option" "bool option"

type_synonym patternValidator =
  "bool \<Rightarrow> int \<Rightarrow> jsstring \<Rightarrow> int \<Rightarrow> int \<Rightarrow> flagsArgument \<Rightarrow> error + event list"

definition getPattern :: "pstate \<Rightarrow> error + addr" where
  "getPattern st =
     bindE (typeOf (heap st) (node st))
       (\<lambda>t. case node st of
               VRef n \<Rightarrow> if t \<noteq> S ''Pattern'' then Inl UnknownError else Inr n
             | _ \<Rightarrow> Inl UnknownError)"

definition getFlags :: "pstate \<Rightarrow> error + addr" where
  "getFlags st =
     bindE (typeOf (heap st) (flags st))
       (\<lambda>t. case flags st of
               VRef n \<Rightarrow> if t \<noteq> S ''Flags'' then Inl UnknownError else Inr n
             | _ \<Rightarrow> Inl UnknownError)"

definition parserOptions :: "pstate \<Rightarrow> keyOptions option" where
  "parserOptions st =
     Some \<lparr>optStrict = Some (strict st), optEcmaVersion = Some (ecmaVersion st),
           optUnicode = None, optUnicodeSets = None\<rparr>"

definition parseLiteral ::
  "validator \<Rightarrow> nat \<Rightarrow> int \<Rightarrow> jsstring \<Rightarrow> int \<Rightarrow> int \<Rightarrow> pstate \<Rightarrow> parseCache \<Rightarrow>
   error + (jsval \<times> pstate \<times> parseCache)" where
  "parseLiteral validateLiteral fuel now src start endp st c =
     bindE (getCachedLiteral fuel now src start endp (parserOptions st) c (heap st))
       (\<lambda>(cached, c1, h1).
          case cached of
            Some literal \<Rightarrow> Inr (literal, st\<lparr>heap := h1\<rparr>, c1)
          | None \<Rightarrow>
              bindE (validateLiteral (strict st) (ecmaVersion st) src start endp)
                (\<lambda>evs. bindE (run evs (st\<lparr>source := src, heap := h1\<rparr>))
                   (\<lambda>st1. bindE (getPattern st1)
                      (\<lambda>pattern. bindE (getFlags st1)
                         (\<lambda>flagsNode.
                            let literal = length (heap st1);
                                h2 = heap st1 @
                                  [mkNode ''RegExpLiteral'' VNull start endp src
                                     [(''pattern'', VRef pattern),
                                      (''flags'', VRef flagsNode)]];
                                h3 = setp h2 pattern ''parent'' (VRef literal);
                                h4 = setp h3 flagsNode ''parent'' (VRef literal);
                                c2 = (if shouldCache (sliceStr src start endp)
                                      then setCachedLiteral now src start endp literal
                                             (parserOptions st) c1
                                      else c1)
                            in Inr (VRef literal, st1\<lparr>heap := h4\<rparr>, c2))))))"

definition parseFlags ::
  "validator \<Rightarrow> nat \<Rightarrow> int \<Rightarrow> jsstring \<Rightarrow> int \<Rightarrow> int \<Rightarrow> pstate \<Rightarrow> parseCache \<Rightarrow>
   error + (jsval \<times> pstate \<times> parseCache)" where
  "parseFlags validateFlags fuel now src start endp st c =
     bindE (getCachedFlags fuel now src start endp c (heap st))
       (\<lambda>(cached, c1, h1).
          case cached of
            Some flagsNode \<Rightarrow> Inr (flagsNode, st\<lparr>heap := h1\<rparr>, c1)
          | None \<Rightarrow>
              bindE (validateFlags (strict st) (ecmaVersion st) src start endp)
                (\<lambda>evs. bindE (run evs (st\<lparr>source := src, heap := h1\<rparr>))
                   (\<lambda>st1. bindE (getFlags st1)
                      (\<lambda>flagsNode.
                         Inr (VRef flagsNode, st1,
                              setCachedFlags now src start endp flagsNode c1)))))"

definition normalizeFlags :: "flagsArgument \<Rightarrow> (bool option \<times> bool option) option" where
  "normalizeFlags uFlagOrFlags =
     (case uFlagOrFlags of
        NoFlags \<Rightarrow> None
      | UFlag b \<Rightarrow> Some (Some b, None)
      | FlagsObject u v \<Rightarrow> Some (u, v))"

definition parsePattern ::
  "patternValidator \<Rightarrow> nat \<Rightarrow> int \<Rightarrow> jsstring \<Rightarrow> int \<Rightarrow> int \<Rightarrow> flagsArgument \<Rightarrow> pstate \<Rightarrow>
   parseCache \<Rightarrow> error + (jsval \<times> pstate \<times> parseCache)" where
  "parsePattern validatePattern fuel now src start endp uFlagOrFlags st c =
     (let flagsArg = normalizeFlags uFlagOrFlags;
          options = Some (strict st, ecmaVersion st)
      in case tryFastPath src start endp (heap st) of
           Some (fastPath, h1) \<Rightarrow> Inr (VRef fastPath, st\<lparr>heap := h1\<rparr>, c)
         | None \<Rightarrow>
             bindE (getCachedPattern fuel now src start endp flagsArg options c (heap st))
               (\<lambda>(cached, c1, h1).
                  case cached of
                    Some pattern \<Rightarrow> Inr (pattern, st\<lparr>heap := h1\<rparr>, c1)
                  | None \<Rightarrow>
                      bindE (validatePattern (strict st) (ecmaVersion st) src start endp
                               uFlagOrFlags)
                        (\<lambda>evs. bindE (run evs (st\<lparr>source := src, heap := h1\<rparr>))
                           (\<lambda>st1. bindE (getPattern st1)
                              (\<lambda>pattern.
                                 Inr (VRef pattern, st1,
                                      if shouldCache (sliceStr src start endp)
                                      then setCachedPattern now src start endp pattern
                                             flagsArg options c1
                                      else c1))))))"

section \<open>Running the assembler on the events of one input\<close>

text \<open>
  The state a fresh parser (default options) reaches after the given calls on the given
  source text.
\<close>

definition assemble :: "jsstring \<Rightarrow> event list \<Rightarrow> error + pstate" where
  "assemble src evs = run evs ((newState False 2025 heap0)\<lparr>source := src\<rparr>)"

definition stateOf :: "error + pstate \<Rightarrow> pstate" where
  "stateOf r = (case r of Inr st \<Rightarrow> st | Inl _ \<Rightarrow> newState False 2025 heap0)"

text \<open>
  The calls made for \<open>a*\<close> up to the quantifier, and for the \<open>v\<close>-mode class \<open>[a&&b]\<close> up
  to the end of the class.
\<close>

definition starState :: pstate where
  "starState =
     stateOf (assemble (ustr ''a*'') [PatternEnter 0, AlternativeEnter 0, Character 0 1 97])"

definition intersectionState :: pstate where
  "intersectionState =
     stateOf (assemble (ustr ''[a&&b]'')
       [PatternEnter 0, AlternativeEnter 0, CharacterClassEnter 0 False True,
        Character 1 2 97, Character 4 5 98, ClassIntersection 1 5])"

section \<open>Reading a tree, and the inputs the results are evaluated at\<close>

text \<open>
  A path through the object graph, as JavaScript writes it:
  \<open>ast.pattern.alternatives[0]\<close> is \<open>follow h ast [P ''pattern'', P ''alternatives'', I 0]\<close>.
\<close>

datatype step = P string | I nat

fun follow :: "heap \<Rightarrow> jsval \<Rightarrow> step list \<Rightarrow> jsval" where
  "follow h v [] = v"
| "follow h v (P k # steps) = follow h (field h v k) steps"
| "follow h v (I i # steps) =
     (case v of
        VArr xs \<Rightarrow> (if i < length xs then follow h (xs ! i) steps else VUndef)
      | _ \<Rightarrow> VUndef)"

text \<open>
  Modelled from the spec: the validator is not part of the sources at hand. Its calls
  for the literal \<open>/(a)\1/\<close> (a capturing group followed by a reference to it) follow
  sections 4.2.8 and 6.2 of the specification: the flags first, then the pattern with
  properly nested Enter and Leave calls. Any other input is rejected here.
\<close>

definition backrefLiteral :: jsstring where
  "backrefLiteral = ustr ''/(a)'' @ [0x5C] @ ustr ''1/''"

definition backrefLiteralEvents :: "event list" where
  "backrefLiteralEvents =
     [RegExpFlags 7 7 False False False False False False False False,
      PatternEnter 1, AlternativeEnter 1, CapturingGroupEnter 1 VNull, AlternativeEnter 2,
      Character 2 3 97, AlternativeLeave 2 3, CapturingGroupLeave 1 4,
      Backreference 4 6 (VNum 1), AlternativeLeave 1 6, PatternLeave 1 6]"

definition sampleValidateLiteral :: validator where
  "sampleValidateLiteral strictOpt version src start endp =
     (if sliceStr src start endp = backrefLiteral \<and> start = 0 then Inr backrefLiteralEvents
      else Inl SyntaxError)"

text \<open>Two calls of \<open>parseLiteral("/(a)\\1/")\<close> on one parser, the cache empty at first.\<close>

definition firstLiteralParse :: "error + (jsval \<times> pstate \<times> parseCache)" where
  "firstLiteralParse =
     parseLiteral sampleValidateLiteral 32 1000 backrefLiteral 0 7
       (newState False 2025 heap0) globalParseCache"

definition secondLiteralParse :: "error + (jsval \<times> pstate \<times> parseCache)" where
  "secondLiteralParse =
     bindE firstLiteralParse
       (\<lambda>(_, st, c). parseLiteral sampleValidateLiteral 32 1001 backrefLiteral 0 7 st c)"

text \<open>
  Modelled from the spec: the validator's answer on the flags text \<open>d\<close>. Section 4.2.1
  dates the \<open>d\<close> flag to ES2022, and earlier editions must reject it.
\<close>

definition sampleValidateFlags :: validator where
  "sampleValidateFlags strictOpt version src start endp =
     (if sliceStr src start endp = ustr ''d'' \<and> 2022 \<le> version
      then Inr [RegExpFlags start endp False False False False False False True False]
      else Inl SyntaxError)"

text \<open>
  \<open>new RegExpParser({ecmaVersion: 2025}).parseFlags("d")\<close>, then
  \<open>new RegExpParser({ecmaVersion: 2015}).parseFlags("d")\<close>: two parser states, one heap
  and one global cache.
\<close>

definition firstFlagsParse :: "error + (jsval \<times> pstate \<times> parseCache)" where
  "firstFlagsParse =
     parseFlags sampleValidateFlags 32 1000 (ustr ''d'') 0 1
       (newState False 2025 heap0) globalParseCache"

definition secondFlagsParse :: "error + (jsval \<times> pstate \<times> parseCache)" where
  "secondFlagsParse =
     bindE firstFlagsParse
       (\<lambda>(_, st, c). parseFlags sampleValidateFlags 32 1001 (ustr ''d'') 0 1
                       (newState False 2015 (heap st)) c)"

text \<open>
  The candidate set of a pending reference, in the words of the specification: the
  group with the 1-based number in emission order, or all groups with the name.
\<close>

definition candidateGroups :: "heap \<Rightarrow> addr list \<Rightarrow> jsval \<Rightarrow> addr list" where
  "candidateGroups h gs ref =
     (case ref of
        VNum k \<Rightarrow> (if 1 \<le> k \<and> k \<le> int (length gs) then [gs ! nat (k - 1)] else [])
      | VStr name \<Rightarrow> filter (\<lambda>g. getp h g ''name'' = VStr name) gs
      | _ \<Rightarrow> [])"

text \<open>
  The calls for \<open>(?<n>a)|(?<n>b)|\k<n>\1\<close> up to the end of the last alternative: two
  groups named \<open>n\<close>, a reference by name and a reference by number.
\<close>

definition namedGroupsState :: pstate where
  "namedGroupsState =
     stateOf (assemble (ustr ''(?<n>a)|(?<n>b)|'' @ [0x5C] @ ustr ''k<n>'' @ [0x5C, 0x31])
       [PatternEnter 0, AlternativeEnter 0, CapturingGroupEnter 0 (S ''n''),
        AlternativeEnter 5, Character 5 6 97, AlternativeLeave 5 6,
        CapturingGroupLeave 0 7, AlternativeLeave 0 7,
        AlternativeEnter 8, CapturingGroupEnter 8 (S ''n''),
        AlternativeEnter 13, Character 13 14 98, AlternativeLeave 13 14,
        CapturingGroupLeave 8 15, AlternativeLeave 8 15,
        AlternativeEnter 16, Backreference 16 21 (S ''n''), Backreference 21 23 (VNum 1),
        AlternativeLeave 16 23])"

section \<open>Structural comparison and the simple literals\<close>

text \<open>
  The tree below a value, without the \<open>parent\<close> properties: two values are structurally
  equal, ignoring parent identity, when their trees are equal. The depth looked at is
  bounded; \<open>None\<close> means that the bound was too small.
\<close>

datatype tree = Leaf jsval | Arr "tree list" | Obj "(string \<times> tree) list"

primrec snapshot :: "nat \<Rightarrow> heap \<Rightarrow> jsval \<Rightarrow> tree option" where
  "snapshot 0 h v = None"
| "snapshot (Suc depth) h v =
     (case v of
        VRef a \<Rightarrow>
          map_option Obj
            (those (map (\<lambda>(k, x). map_option (Pair k) (snapshot depth h x))
                      (filter (\<lambda>(k, x). k \<noteq> ''parent'') (objAt h a))))
      | VArr xs \<Rightarrow> map_option Arr (those (map (snapshot depth h) xs))
      | _ \<Rightarrow> Some (Leaf v))"

text \<open>
  The tree of a simple literal, in the words of the claim: a Pattern with exactly one
  Alternative, whose elements are Character nodes of one code unit each, the \<open>i\<close>-th with
  the value of the code unit and the offsets \<open>start + i\<close> and \<open>start + i + 1\<close>.
\<close>

fun characterTrees :: "jsstring \<Rightarrow> int \<Rightarrow> tree list" where
  "characterTrees [] pos = []"
| "characterTrees (c # cs) pos =
     Obj [(''type'', Leaf (S ''Character'')), (''start'', Leaf (VNum pos)),
          (''end'', Leaf (VNum (pos + 1))), (''raw'', Leaf (VStr [c])),
          (''value'', Leaf (VNum (int c)))] #
     characterTrees cs (pos + 1)"

definition simpleLiteralTree :: "jsstring \<Rightarrow> int \<Rightarrow> int \<Rightarrow> tree" where
  "simpleLiteralTree pattern start endp =
     Obj [(''type'', Leaf (S ''Pattern'')), (''start'', Leaf (VNum start)),
          (''end'', Leaf (VNum endp)), (''raw'', Leaf (VStr pattern)),
          (''alternatives'',
           Arr [Obj [(''type'', Leaf (S ''Alternative'')), (''start'', Leaf (VNum start)),
                     (''end'', Leaf (VNum endp)), (''raw'', Leaf (VStr pattern)),
                     (''elements'', Arr (characterTrees pattern start))]])]"

text \<open>
  Modelled from the spec: the validator is not part of the sources at hand. For a
  pattern of word characters only it meets no syntax but pattern characters, so by
  sections 4.2.8 and 6.2 its calls are one Pattern, one Alternative and one Character per
  code unit, with the offsets of the slice.
\<close>

fun characterEvents :: "jsstring \<Rightarrow> int \<Rightarrow> event list" where
  "characterEvents [] pos = []"
| "characterEvents (c # cs) pos = Character pos (pos + 1) (int c) # characterEvents cs (pos + 1)"

definition simpleLiteralEvents :: "jsstring \<Rightarrow> int \<Rightarrow> int \<Rightarrow> event list" where
  "simpleLiteralEvents src start endp =
     [PatternEnter start, AlternativeEnter start] @
     characterEvents (sliceStr src start endp) start @
     [AlternativeLeave start endp, PatternLeave start endp]"

section \<open>Invariants of the assembler's heap\<close>

text \<open>
  The properties a handler may write to after a node has been created; all others keep
  the value the node was created with. \<open>frame h h'\<close>: the heap \<open>h'\<close> extends \<open>h\<close>, and
  the old objects differ at most in those properties.
\<close>

definition mutableKeys :: "string set" where
  "mutableKeys =
     {''end'', ''raw'', ''parent'', ''elements'', ''alternatives'', ''modifiers'', ''add'',
      ''remove'', ''resolved'', ''ambiguous'', ''references''}"

definition frame :: "heap \<Rightarrow> heap \<Rightarrow> bool" where
  "frame h h' =
     (length h \<le> length h' \<and>
      (\<forall>a k. a < length h \<and> k \<notin> mutableKeys \<longrightarrow> getp h' a k = getp h a k))"

text \<open>
  The \<open>type\<close> of the node literal in the handler of each event; the Leave handlers have
  none, except that of CharacterClass, which may build an ExpressionCharacterClass.
\<close>

fun nodeType :: "event \<Rightarrow> string" where
  "nodeType (RegExpFlags s e g i m u y d h v) = ''Flags''"
| "nodeType (PatternEnter s) = ''Pattern''"
| "nodeType (AlternativeEnter s) = ''Alternative''"
| "nodeType (GroupEnter s) = ''Group''"
| "nodeType (ModifiersEnter s) = ''Modifiers''"
| "nodeType (AddModifiers s e i m d) = ''ModifierFlags''"
| "nodeType (RemoveModifiers s e i m d) = ''ModifierFlags''"
| "nodeType (CapturingGroupEnter s n) = ''CapturingGroup''"
| "nodeType (Quantifier s e lo hi g) = ''Quantifier''"
| "nodeType (LookaroundAssertionEnter s k n) = ''Assertion''"
| "nodeType (EdgeAssertion s e k) = ''Assertion''"
| "nodeType (WordBoundaryAssertion s e k n) = ''Assertion''"
| "nodeType (AnyCharacterSet s e k) = ''CharacterSet''"
| "nodeType (EscapeCharacterSet s e k n) = ''CharacterSet''"
| "nodeType (UnicodePropertyCharacterSet s e k key v n str) = ''CharacterSet''"
| "nodeType (Character s e v) = ''Character''"
| "nodeType (Backreference s e r) = ''Backreference''"
| "nodeType (CharacterClassEnter s n u) = ''CharacterClass''"
| "nodeType (CharacterClassLeave s e) = ''ExpressionCharacterClass''"
| "nodeType (CharacterClassRange s e) = ''CharacterClassRange''"
| "nodeType (ClassIntersection s e) = ''ClassIntersection''"
| "nodeType (ClassSubtraction s e) = ''ClassSubtraction''"
| "nodeType (ClassStringDisjunctionEnter s) = ''ClassStringDisjunction''"
| "nodeType (StringAlternativeEnter s) = ''StringAlternative''"
| "nodeType _ = []"

text \<open>
  \<open>creates ty st st'\<close>: the step from \<open>st\<close> to \<open>st'\<close> keeps the frame, and every object it
  has added is a node of type \<open>ty\<close>. \<open>sameFields\<close>: the step has left the source text, the
  two arrays and the expression buffer of the state as they were.
\<close>

definition creates :: "string \<Rightarrow> pstate \<Rightarrow> pstate \<Rightarrow> bool" where
  "creates ty st st' =
     (frame (heap st) (heap st') \<and>
      (\<forall>a. length (heap st) \<le> a \<longrightarrow> a < length (heap st') \<longrightarrow>
           getp (heap st') a ''type'' = S ty))"

definition sameFields :: "pstate \<Rightarrow> pstate \<Rightarrow> bool" where
  "sameFields st st' =
     (source st' = source st \<and> capturingGroups st' = capturingGroups st \<and>
      backreferences st' = backreferences st \<and>
      expressionBufferMap st' = expressionBufferMap st)"


fun reference :: "event \<Rightarrow> jsval list" where
  "reference (Backreference s e ref) = [ref]"
| "reference _ = []"








text \<open>
  The chain of the claim, in its words: a node of one operator type whose right operand
  is a class set operand and whose left operand is a class set operand or again such a
  chain. At most \<open>depth\<close> operator nodes are followed; no chain in a heap is longer than
  the heap.
\<close>

primrec chain :: "nat \<Rightarrow> heap \<Rightarrow> string \<Rightarrow> jsval \<Rightarrow> bool" where
  "chain 0 h ty v = False"
| "chain (Suc depth) h ty v =
     (field h v ''type'' = S ty \<and> isClassSetOperand h (field h v ''right'') \<and>
      (isClassSetOperand h (field h v ''left'') \<or> chain depth h ty (field h v ''left'')))"

definition homogeneousChain :: "heap \<Rightarrow> jsval \<Rightarrow> bool" where
  "homogeneousChain h v =
     (chain (length h) h ''ClassIntersection'' v \<or> chain (length h) h ''ClassSubtraction'' v)"

text \<open>
  What holds of the operator nodes while the assembler runs: the left operand of an
  operator node is an older node, of the same operator type or a class set operand, its
  right operand is a class set operand; the expression of an ExpressionCharacterClass
  and every entry of the expression buffer is an operator node.
\<close>

definition operandsOk :: "heap \<Rightarrow> string \<Rightarrow> addr \<Rightarrow> bool" where
  "operandsOk h ty a =
     (\<exists>l. getp h a ''left'' = VRef l \<and> l < a \<and>
          (getp h l ''type'' = S ty \<or> isClassSetOperand h (VRef l)) \<and>
          isClassSetOperand h (getp h a ''right''))"

definition operatorAt :: "heap \<Rightarrow> addr \<Rightarrow> bool" where
  "operatorAt h x =
     (getp h x ''type'' = S ''ClassIntersection'' \<or> getp h x ''type'' = S ''ClassSubtraction'')"

definition classInv :: "pstate \<Rightarrow> bool" where
  "classInv st =
     ((\<forall>a. (getp (heap st) a ''type'' = S ''ClassIntersection'' \<longrightarrow>
              operandsOk (heap st) ''ClassIntersection'' a) \<and>
           (getp (heap st) a ''type'' = S ''ClassSubtraction'' \<longrightarrow>
              operandsOk (heap st) ''ClassSubtraction'' a) \<and>
           (getp (heap st) a ''type'' = S ''ExpressionCharacterClass'' \<longrightarrow>
              (\<exists>x. getp (heap st) a ''expression'' = VRef x \<and> operatorAt (heap st) x))) \<and>
      (\<forall>x \<in> snd ` set (expressionBufferMap st). operatorAt (heap st) x))"

text \<open>
  The calls for the class \<open>[a&&b--c]\<close> of a \<open>v\<close>-mode pattern up to the operand \<open>c\<close>, where
  the subtraction meets the buffered intersection; and the calls for the whole pattern
  \<open>[a&&b]\<close>.
\<close>

definition mixedState :: pstate where
  "mixedState =
     stateOf (assemble (ustr ''[a&&b--c]'')
       [PatternEnter 0, AlternativeEnter 0, CharacterClassEnter 0 False True,
        Character 1 2 97, Character 4 5 98, ClassIntersection 1 5, Character 7 8 99])"

definition intersectionEvents :: "event list" where
  "intersectionEvents =
     [PatternEnter 0, AlternativeEnter 0, CharacterClassEnter 0 False True,
      Character 1 2 97, Character 4 5 98, ClassIntersection 1 5,
      CharacterClassLeave 0 6, AlternativeLeave 0 6, PatternLeave 0 6]"

text \<open>
  C7 in the words of the claim. \<open>nodeRaw src h a\<close>: the node at \<open>a\<close> has numeric offsets
  and its \<open>raw\<close> is the slice of the source between them. On the tree of a node, the
  \<open>raw\<close> of every node in depth-first order from left to right, and the \<open>raw\<close> of the
  leaves only (the nodes with no node below them).
\<close>

definition nodeRaw :: "jsstring \<Rightarrow> heap \<Rightarrow> addr \<Rightarrow> bool" where
  "nodeRaw src h a =
     (\<exists>s e. getp h a ''start'' = VNum s \<and> getp h a ''end'' = VNum e \<and>
            getp h a ''raw'' = VStr (sliceStr src s e))"

definition rawOf :: "(string \<times> tree) list \<Rightarrow> jsstring list" where
  "rawOf kvs = (case map_of kvs ''raw'' of Some (Leaf (VStr r)) \<Rightarrow> [r] | _ \<Rightarrow> [])"

primrec allRaws :: "tree \<Rightarrow> jsstring list" where
  "allRaws (Leaf v) = []"
| "allRaws (Arr ts) = concat (map allRaws ts)"
| "allRaws (Obj kvs) = rawOf kvs @ concat (map snd (map (map_prod id allRaws) kvs))"

primrec leafRaws :: "tree \<Rightarrow> jsstring list" where
  "leafRaws (Leaf v) = []"
| "leafRaws (Arr ts) = concat (map leafRaws ts)"
| "leafRaws (Obj kvs) =
     (let below = concat (map snd (map (map_prod id leafRaws) kvs))
      in if below = [] then rawOf kvs else below)"

definition treeOf :: "heap \<Rightarrow> jsval \<Rightarrow> tree" where
  "treeOf h v = (case snapshot 12 h v of Some t \<Rightarrow> t | None \<Rightarrow> Leaf VUndef)"

text \<open>
  Modelled from the spec: the validator is not part of the sources at hand. By sections
  4.2.8 and 6.2 of the specification every Leave call matches an Enter call and receives
  the offsets of the node, so its \<open>start\<close> is the one the node was entered with.
  \<open>agreeing evs st\<close>: this holds of every Leave call among \<open>evs\<close>, made from state \<open>st\<close> on.
\<close>

fun leaveOffset :: "event \<Rightarrow> int option" where
  "leaveOffset (PatternLeave s e) = Some s"
| "leaveOffset (AlternativeLeave s e) = Some s"
| "leaveOffset (GroupLeave s e) = Some s"
| "leaveOffset (ModifiersLeave s e) = Some s"
| "leaveOffset (CapturingGroupLeave s e) = Some s"
| "leaveOffset (LookaroundAssertionLeave s e) = Some s"
| "leaveOffset (CharacterClassLeave s e) = Some s"
| "leaveOffset (ClassStringDisjunctionLeave s e) = Some s"
| "leaveOffset (StringAlternativeLeave s e) = Some s"
| "leaveOffset _ = None"

definition leaveStart :: "event \<Rightarrow> pstate \<Rightarrow> bool" where
  "leaveStart ev st =
     (case leaveOffset ev of
        None \<Rightarrow> True
      | Some s \<Rightarrow> field (heap st) (node st) ''start'' = VNum s)"

fun agreeing :: "event list \<Rightarrow> pstate \<Rightarrow> bool" where
  "agreeing [] st = True"
| "agreeing (ev # evs) st =
     (leaveStart ev st \<and>
      (case handle ev st of Inr st1 \<Rightarrow> agreeing evs st1 | Inl e \<Rightarrow> True))"

text \<open>
  Modelled from the spec: the calls of the validator for the pattern \<open>a(b|c)d\<close>, the first
  scenario of section 8 of the specification (one Alternative of three elements, the
  second a CapturingGroup with the alternatives \<open>b\<close> and \<open>c\<close>).
\<close>

definition groupPattern :: jsstring where
  "groupPattern = ustr ''a(b|c)d''"

definition groupPatternEvents :: "event list" where
  "groupPatternEvents =
     [PatternEnter 0, AlternativeEnter 0, Character 0 1 97, CapturingGroupEnter 1 VNull,
      AlternativeEnter 2, Character 2 3 98, AlternativeLeave 2 3,
      AlternativeEnter 4, Character 4 5 99, AlternativeLeave 4 5,
      CapturingGroupLeave 1 6, Character 6 7 100, AlternativeLeave 0 7, PatternLeave 0 7]"

definition groupPatternState :: pstate where
  "groupPatternState = stateOf (assemble groupPattern groupPatternEvents)"

text \<open>
  What the handlers other than the Leave handlers do to the offsets: the type, the
  offsets and the \<open>raw\<close> of the old objects stay, and a new node has the slice between
  its offsets as \<open>raw\<close>. \<open>rawFrom src base h\<close>: every node from address \<open>base\<close> on has the
  slice between its offsets as \<open>raw\<close>.
\<close>

definition adds :: "pstate \<Rightarrow> pstate \<Rightarrow> bool" where
  "adds st st' =
     ((\<forall>a. a < length (heap st) \<longrightarrow>
          getp (heap st') a ''type'' = getp (heap st) a ''type'' \<and>
          getp (heap st') a ''start'' = getp (heap st) a ''start'' \<and>
          getp (heap st') a ''end'' = getp (heap st) a ''end'' \<and>
          getp (heap st') a ''raw'' = getp (heap st) a ''raw'') \<and>
      (\<forall>a. length (heap st) \<le> a \<longrightarrow> a < length (heap st') \<longrightarrow>
           nodeRaw (source st) (heap st') a))"

definition rawFrom :: "jsstring \<Rightarrow> nat \<Rightarrow> heap \<Rightarrow> bool" where
  "rawFrom src base h =
     (\<forall>a. base \<le> a \<longrightarrow> getp h a ''type'' \<noteq> VUndef \<longrightarrow> nodeRaw src h a)"


section \<open>Strings and the heap\<close>

lemma ustr_inject [simp]: "ustr a = ustr b \<longleftrightarrow> a = b"
  unfolding ustr_def
  by (rule inj_map_eq_map) (simp add: inj_on_def)

lemma length_setp [simp]: "length (setp h a k v) = length h"
  by (simp add: setp_def)

lemma getp_setp [simp]:
  "getp (setp h a k v) b j = (if a = b \<and> k = j \<and> a < length h then v else getp h b j)"
  by (simp add: getp_def setp_def update_conv' nth_list_update)

lemma getp_append [simp]:
  "getp (h @ [ob]) a k =
     (if a < length h then getp h a k
      else if a = length h then (case map_of ob k of Some v \<Rightarrow> v | None \<Rightarrow> VUndef)
      else VUndef)"
  by (simp add: getp_def nth_append)

lemma getp_valid: "getp h a k \<noteq> VUndef \<Longrightarrow> a < length h"
  by (simp add: getp_def split: if_splits)

lemma setp_append [simp]: "a < length h \<Longrightarrow> setp (h @ [ob]) a k v = setp h a k v @ [ob]"
  by (simp add: setp_def nth_append list_update_append)

lemma nth_setp [simp]: "b \<noteq> a \<Longrightarrow> setp h a k v ! b = h ! b"
  by (simp add: setp_def)

subsection \<open>C4: the Quantifier event\<close>

text \<open>
  C4. With an Alternative as current node, \<open>onQuantifier\<close> fails when the element list is
  empty or its last element is a Quantifier or an Assertion other than a lookahead;
  otherwise it takes the last element \<open>el\<close> off the list and puts a new Quantifier node
  in its place, whose \<open>element\<close> is \<open>el\<close>, whose \<open>start\<close> is \<open>el.start\<close>, whose \<open>min\<close>,
  \<open>max\<close> and \<open>greedy\<close> are the arguments of the event and whose \<open>parent\<close> is the
  Alternative; \<open>el.parent\<close> becomes the Quantifier, and nothing else in the heap changes.
\<close>

theorem onQuantifier_wraps_last_element:
  assumes cur: "node st = VRef p"
    and alt: "getp (heap st) p ''type'' = S ''Alternative''"
    and els: "getp (heap st) p ''elements'' = VArr els"
  shows "(els = [] \<longrightarrow> onQuantifier start endp qmin qmax greedy st = Inl UnknownError) \<and>
    (\<forall>el. els \<noteq> [] \<and> last els = VRef el \<and>
        (getp (heap st) el ''type'' = S ''Quantifier'' \<or>
         (getp (heap st) el ''type'' = S ''Assertion'' \<and>
          getp (heap st) el ''kind'' \<noteq> S ''lookahead'')) \<longrightarrow>
        onQuantifier start endp qmin qmax greedy st = Inl UnknownError) \<and>
    (\<forall>el elStart. els \<noteq> [] \<and> last els = VRef el \<and>
        getp (heap st) el ''type'' \<noteq> S ''Quantifier'' \<and>
        (getp (heap st) el ''type'' = S ''Assertion'' \<longrightarrow>
         getp (heap st) el ''kind'' = S ''lookahead'') \<and>
        getp (heap st) el ''start'' = VNum elStart \<longrightarrow>
        (\<exists>st'. onQuantifier start endp qmin qmax greedy st = Inr st' \<and>
           node st' = VRef p \<and>
           length (heap st') = Suc (length (heap st)) \<and>
           heap st' ! length (heap st) =
             mkNode ''Quantifier'' (VRef p) elStart endp (sliceStr (source st) elStart endp)
               [(''min'', qmin), (''max'', qmax), (''greedy'', VBool greedy),
                (''element'', VRef el)] \<and>
           getp (heap st') p ''elements'' = VArr (butlast els @ [VRef (length (heap st))]) \<and>
           getp (heap st') el ''parent'' = VRef (length (heap st)) \<and>
           (\<forall>a k. (a, k) \<noteq> (p, ''elements'') \<and> (a, k) \<noteq> (el, ''parent'') \<and>
                  a < length (heap st) \<longrightarrow>
                  getp (heap st') a k = getp (heap st) a k)))"
proof -
  have p: "p < length (heap st)"
    using alt getp_valid [of "heap st" p "''type''"] by simp
  show ?thesis
  proof (intro conjI allI impI)
    assume "els = []"
    then show "onQuantifier start endp qmin qmax greedy st = Inl UnknownError"
      using cur alt els by (simp add: onQuantifier_def withCursor_def popp_def bindE_def)
  next
    fix el
    assume "els \<noteq> [] \<and> last els = VRef el \<and>
        (getp (heap st) el ''type'' = S ''Quantifier'' \<or>
         (getp (heap st) el ''type'' = S ''Assertion'' \<and>
          getp (heap st) el ''kind'' \<noteq> S ''lookahead''))"
    then show "onQuantifier start endp qmin qmax greedy st = Inl UnknownError"
      using cur alt els by (auto simp add: onQuantifier_def withCursor_def popp_def bindE_def)
  next
    fix el elStart
    assume h: "els \<noteq> [] \<and> last els = VRef el \<and>
        getp (heap st) el ''type'' \<noteq> S ''Quantifier'' \<and>
        (getp (heap st) el ''type'' = S ''Assertion'' \<longrightarrow>
         getp (heap st) el ''kind'' = S ''lookahead'') \<and>
        getp (heap st) el ''start'' = VNum elStart"
    then have el: "el < length (heap st)"
      using getp_valid [of "heap st" el "''start''"] by simp
    show "\<exists>st'. onQuantifier start endp qmin qmax greedy st = Inr st' \<and>
           node st' = VRef p \<and>
           length (heap st') = Suc (length (heap st)) \<and>
           heap st' ! length (heap st) =
             mkNode ''Quantifier'' (VRef p) elStart endp (sliceStr (source st) elStart endp)
               [(''min'', qmin), (''max'', qmax), (''greedy'', VBool greedy),
                (''element'', VRef el)] \<and>
           getp (heap st') p ''elements'' = VArr (butlast els @ [VRef (length (heap st))]) \<and>
           getp (heap st') el ''parent'' = VRef (length (heap st)) \<and>
           (\<forall>a k. (a, k) \<noteq> (p, ''elements'') \<and> (a, k) \<noteq> (el, ''parent'') \<and>
                  a < length (heap st) \<longrightarrow>
                  getp (heap st') a k = getp (heap st) a k)"
      using cur alt els h p el
      by (auto simp add: onQuantifier_def withCursor_def popp_def pushp_def bindE_def
            mkNode_def nth_append)
  qed
qed



text \<open>The theorem at \<open>a*\<close>: the Character \<open>a\<close> (object 5) is wrapped by the new object 6.\<close>

lemma starState_eq:
  "starState =
     \<lparr>strict = False, ecmaVersion = 2025, node = VRef 4, expressionBufferMap = [],
      flags = VRef 1, backreferences = [], capturingGroups = [], source = ustr ''a*'',
      heap =
        [[], [], [],
         mkNode ''Pattern'' VNull 0 0 [] [(''alternatives'', VArr [VRef 4])],
         mkNode ''Alternative'' (VRef 3) 0 0 [] [(''elements'', VArr [VRef 5])],
         mkNode ''Character'' (VRef 4) 0 1 (ustr ''a'') [(''value'', VNum 97)]]\<rparr>"
  by code_simp

theorem onQuantifier_wraps_last_element_witness:
  "\<exists>st'. onQuantifier 1 2 (VNum 0) VInf True starState = Inr st' \<and>
     getp (heap st') 4 ''elements'' = VArr [VRef 6] \<and>
     getp (heap st') 5 ''parent'' = VRef 6 \<and>
     heap st' ! 6 =
       mkNode ''Quantifier'' (VRef 4) 0 2 (ustr ''a*'')
         [(''min'', VNum 0), (''max'', VInf), (''greedy'', VBool True), (''element'', VRef 5)]"
proof -
  have cur: "node starState = VRef 4"
    and alt: "getp (heap starState) 4 ''type'' = S ''Alternative''"
    and els: "getp (heap starState) 4 ''elements'' = VArr [VRef 5]"
    and len: "length (heap starState) = 6"
    by (simp_all add: starState_eq getp_def mkNode_def)
  have el: "[VRef 5] \<noteq> [] \<and> last [VRef 5] = VRef 5 \<and>
      getp (heap starState) 5 ''type'' \<noteq> S ''Quantifier'' \<and>
      (getp (heap starState) 5 ''type'' = S ''Assertion'' \<longrightarrow>
       getp (heap starState) 5 ''kind'' = S ''lookahead'') \<and>
      getp (heap starState) 5 ''start'' = VNum 0"
    by (simp add: starState_eq getp_def mkNode_def)
  have src: "sliceStr (source starState) 0 2 = ustr ''a*''"
    by (simp add: starState_eq sliceStr_def ustr_def)
  note wrap = onQuantifier_wraps_last_element [OF cur alt els, of 1 2 "VNum 0" VInf True,
      THEN conjunct2, THEN conjunct2, rule_format, of 5 0]
  from wrap [OF el] obtain st' where
    "onQuantifier 1 2 (VNum 0) VInf True starState = Inr st'"
    "heap st' ! length (heap starState) =
       mkNode ''Quantifier'' (VRef 4) 0 2 (sliceStr (source starState) 0 2)
         [(''min'', VNum 0), (''max'', VInf), (''greedy'', VBool True), (''element'', VRef 5)]"
    "getp (heap st') 4 ''elements'' = VArr (butlast [VRef 5] @ [VRef (length (heap starState))])"
    "getp (heap st') 5 ''parent'' = VRef (length (heap starState))"
    by blast
  then show ?thesis
    unfolding len src by simp
qed

subsection \<open>C5: a class with set operators becomes an ExpressionCharacterClass\<close>

text \<open>
  C5. At \<open>onCharacterClassLeave\<close>, when an operator node is buffered for the class: if the
  class still has elements the handler fails; if it has none, the class is taken off the
  end of its parent's element list and a new ExpressionCharacterClass is put there, whose
  \<open>expression\<close> is the buffered operator node (whose \<open>parent\<close> becomes the new node) and
  whose \<open>start\<close>, \<open>end\<close>, \<open>raw\<close>, \<open>negate\<close> and \<open>parent\<close> are those of the finalised class;
  the buffer entry is removed and nothing else in the heap changes.
\<close>

theorem onCharacterClassLeave_retypes_class:
  assumes cur: "node st = VRef n"
    and cls: "getp (heap st) n ''type'' = S ''CharacterClass''"
    and par: "getp (heap st) n ''parent'' = VRef parent"
    and pty: "getp (heap st) parent ''type'' = S ''Alternative'' \<or>
              getp (heap st) parent ''type'' = S ''CharacterClass''"
    and buf: "map_of (expressionBufferMap st) n = Some expression"
    and els: "getp (heap st) n ''elements'' = VArr els"
  shows "(els \<noteq> [] \<longrightarrow> onCharacterClassLeave start endp st = Inl UnknownError) \<and>
    (\<forall>pels. els = [] \<and> getp (heap st) parent ''elements'' = VArr pels \<and> pels \<noteq> [] \<and>
        last pels = VRef n \<and> expression < length (heap st) \<longrightarrow>
        (\<exists>st'. onCharacterClassLeave start endp st = Inr st' \<and>
           node st' = VRef parent \<and>
           length (heap st') = Suc (length (heap st)) \<and>
           getp (heap st') parent ''elements'' =
             VArr (butlast pels @ [VRef (length (heap st))]) \<and>
           getp (heap st') (length (heap st)) ''type'' = S ''ExpressionCharacterClass'' \<and>
           getp (heap st') (length (heap st)) ''expression'' = VRef expression \<and>
           getp (heap st') expression ''parent'' = VRef (length (heap st)) \<and>
           getp (heap st') (length (heap st)) ''parent'' = getp (heap st) n ''parent'' \<and>
           getp (heap st') (length (heap st)) ''start'' = getp (heap st) n ''start'' \<and>
           getp (heap st') (length (heap st)) ''negate'' = getp (heap st) n ''negate'' \<and>
           getp (heap st') (length (heap st)) ''end'' = VNum endp \<and>
           getp (heap st') (length (heap st)) ''raw'' =
             VStr (sliceStr (source st) start endp) \<and>
           (\<forall>k \<in> {''start'', ''end'', ''raw'', ''negate''}.
              getp (heap st') (length (heap st)) k = getp (heap st') n k) \<and>
           map_of (expressionBufferMap st') n = None \<and>
           (\<forall>a k. a < length (heap st) \<and> (a, k) \<noteq> (n, ''end'') \<and> (a, k) \<noteq> (n, ''raw'') \<and>
                  (a, k) \<noteq> (expression, ''parent'') \<and> (a, k) \<noteq> (parent, ''elements'') \<longrightarrow>
                  getp (heap st') a k = getp (heap st) a k)))"
proof -
  have n: "n < length (heap st)"
    using cls getp_valid [of "heap st" n "''type''"] by simp
  have p: "parent < length (heap st)"
    using pty getp_valid [of "heap st" parent "''type''"] by auto
  have ty: "typeOf (heap st) (VRef parent) = Inr (getp (heap st) parent ''type'')"
    by (simp add: typeOf_def)
  show ?thesis
  proof (intro conjI allI impI)
    assume "els \<noteq> []"
    then show "onCharacterClassLeave start endp st = Inl UnknownError"
      using cur cls par pty buf els n p
      by (auto simp add: onCharacterClassLeave_def withCursor_def typeOf_def bindE_def
            leaveNode_def Let_def)
  next
    fix pels
    assume h: "els = [] \<and> getp (heap st) parent ''elements'' = VArr pels \<and> pels \<noteq> [] \<and>
        last pels = VRef n \<and> expression < length (heap st)"
    show "\<exists>st'. onCharacterClassLeave start endp st = Inr st' \<and>
           node st' = VRef parent \<and>
           length (heap st') = Suc (length (heap st)) \<and>
           getp (heap st') parent ''elements'' =
             VArr (butlast pels @ [VRef (length (heap st))]) \<and>
           getp (heap st') (length (heap st)) ''type'' = S ''ExpressionCharacterClass'' \<and>
           getp (heap st') (length (heap st)) ''expression'' = VRef expression \<and>
           getp (heap st') expression ''parent'' = VRef (length (heap st)) \<and>
           getp (heap st') (length (heap st)) ''parent'' = getp (heap st) n ''parent'' \<and>
           getp (heap st') (length (heap st)) ''start'' = getp (heap st) n ''start'' \<and>
           getp (heap st') (length (heap st)) ''negate'' = getp (heap st) n ''negate'' \<and>
           getp (heap st') (length (heap st)) ''end'' = VNum endp \<and>
           getp (heap st') (length (heap st)) ''raw'' =
             VStr (sliceStr (source st) start endp) \<and>
           (\<forall>k \<in> {''start'', ''end'', ''raw'', ''negate''}.
              getp (heap st') (length (heap st)) k = getp (heap st') n k) \<and>
           map_of (expressionBufferMap st') n = None \<and>
           (\<forall>a k. a < length (heap st) \<and> (a, k) \<noteq> (n, ''end'') \<and> (a, k) \<noteq> (n, ''raw'') \<and>
                  (a, k) \<noteq> (expression, ''parent'') \<and> (a, k) \<noteq> (parent, ''elements'') \<longrightarrow>
                  getp (heap st') a k = getp (heap st) a k)"
      using cur cls par pty buf els n p h
      by (auto simp add: onCharacterClassLeave_def withCursor_def typeOf_def bindE_def
            leaveNode_def Let_def popp_def pushp_def delete_conv')
  qed
qed

text \<open>The theorem at \<open>[a&&b]\<close>: the class (object 5) is replaced by the new object 9.\<close>

lemma intersectionState_eq:
  "intersectionState =
     \<lparr>strict = False, ecmaVersion = 2025, node = VRef 5, expressionBufferMap = [(5, 8)],
      flags = VRef 1, backreferences = [], capturingGroups = [],
      source = ustr ''[a&&b]'',
      heap =
        [[], [], [],
         mkNode ''Pattern'' VNull 0 0 [] [(''alternatives'', VArr [VRef 4])],
         mkNode ''Alternative'' (VRef 3) 0 0 [] [(''elements'', VArr [VRef 5])],
         mkNode ''CharacterClass'' (VRef 4) 0 0 []
           [(''unicodeSets'', VBool True), (''negate'', VBool False), (''elements'', VArr [])],
         mkNode ''Character'' (VRef 8) 1 2 (ustr ''a'') [(''value'', VNum 97)],
         mkNode ''Character'' (VRef 8) 4 5 (ustr ''b'') [(''value'', VNum 98)],
         mkNode ''ClassIntersection'' (VRef 5) 1 5 (ustr ''a&&b'')
           [(''left'', VRef 6), (''right'', VRef 7)]]\<rparr>"
  by code_simp

theorem onCharacterClassLeave_retypes_class_witness:
  "\<exists>st'. onCharacterClassLeave 0 6 intersectionState = Inr st' \<and>
     getp (heap st') 4 ''elements'' = VArr [VRef 9] \<and>
     getp (heap st') 9 ''type'' = S ''ExpressionCharacterClass'' \<and>
     getp (heap st') 9 ''expression'' = VRef 8 \<and>
     getp (heap st') 9 ''parent'' = VRef 4 \<and>
     getp (heap st') 8 ''parent'' = VRef 9"
proof -
  have cur: "node intersectionState = VRef 5"
    and cls: "getp (heap intersectionState) 5 ''type'' = S ''CharacterClass''"
    and par: "getp (heap intersectionState) 5 ''parent'' = VRef 4"
    and buf: "map_of (expressionBufferMap intersectionState) 5 = Some 8"
    and els: "getp (heap intersectionState) 5 ''elements'' = VArr []"
    and len: "length (heap intersectionState) = 9"
    by (simp_all add: intersectionState_eq getp_def mkNode_def)
  have pty: "getp (heap intersectionState) 4 ''type'' = S ''Alternative'' \<or>
             getp (heap intersectionState) 4 ''type'' = S ''CharacterClass''"
    by (simp add: intersectionState_eq getp_def mkNode_def)
  have pre: "[] = ([] :: jsval list) \<and>
      getp (heap intersectionState) 4 ''elements'' = VArr [VRef 5] \<and>
      [VRef 5] \<noteq> [] \<and> last [VRef 5] = VRef 5 \<and> 8 < length (heap intersectionState)"
    by (simp add: intersectionState_eq getp_def mkNode_def)
  note leave = onCharacterClassLeave_retypes_class [OF cur cls par pty buf els, of 0 6,
      THEN conjunct2, rule_format, of "[VRef 5]"]
  from leave [OF pre] obtain st' where
    "onCharacterClassLeave 0 6 intersectionState = Inr st'"
    "getp (heap st') 4 ''elements'' =
       VArr (butlast [VRef 5] @ [VRef (length (heap intersectionState))])"
    "getp (heap st') (length (heap intersectionState)) ''type'' = S ''ExpressionCharacterClass''"
    "getp (heap st') (length (heap intersectionState)) ''expression'' = VRef 8"
    "getp (heap st') (length (heap intersectionState)) ''parent'' =
       getp (heap intersectionState) 5 ''parent''"
    "getp (heap st') 8 ''parent'' = VRef (length (heap intersectionState))"
    by blast
  then show ?thesis
    unfolding len par by simp
qed

subsection \<open>C2: backreference resolution at Pattern-leave\<close>

lemma pushp_Inr:
  "pushp h a k v = Inr h' \<Longrightarrow>
     \<exists>xs. getp h a k = VArr xs \<and> a < length h \<and> h' = setp h a k (VArr (xs @ [v]))"
  using getp_valid [of h a k] by (auto simp add: pushp_def split: jsval.splits)

lemma pushp_not_Unknown: "pushp h a k v \<noteq> Inl UnknownError"
  by (simp add: pushp_def split: jsval.splits)

lemma pushReference_frame:
  "pushReference r ms h = Inr h' \<Longrightarrow>
     length h' = length h \<and> (\<forall>a k. k \<noteq> ''references'' \<longrightarrow> getp h' a k = getp h a k)"
proof (induction ms arbitrary: h)
  case Nil
  then show ?case by simp
next
  case (Cons m ms)
  then show ?case
    by (cases m) (auto simp add: bindE_def split: sum.splits dest!: pushp_Inr)
qed

lemma pushReference_refs:
  "pushReference r ms h = Inr h' \<Longrightarrow> \<forall>m \<in> set ms. \<exists>g. m = VRef g"
proof (induction ms arbitrary: h)
  case Nil
  then show ?case by simp
next
  case (Cons m ms)
  then show ?case
    by (cases m) (auto simp add: bindE_def split: sum.splits)
qed

lemma pushReference_references:
  "pushReference r ms h = Inr h' \<Longrightarrow> distinct ms \<Longrightarrow> getp h g ''references'' = VArr old \<Longrightarrow>
     getp h' g ''references'' = VArr (old @ (if VRef g \<in> set ms then [VRef r] else []))"
proof (induction ms arbitrary: h old)
  case Nil
  then show ?case by simp
next
  case (Cons m ms)
  from Cons.prems(1) obtain a where m: "m = VRef a"
    by (cases m) auto
  from Cons.prems(1) m obtain h1 where
    h1: "pushp h a ''references'' (VRef r) = Inr h1" and rest: "pushReference r ms h1 = Inr h'"
    by (auto simp add: bindE_def split: sum.splits)
  from pushp_Inr [OF h1] obtain xs where
    xs: "getp h a ''references'' = VArr xs" "a < length h"
      "h1 = setp h a ''references'' (VArr (xs @ [VRef r]))"
    by blast
  show ?case
  proof (cases "a = g")
    case True
    with xs Cons.prems(3) have "getp h1 g ''references'' = VArr (old @ [VRef r])"
      by simp
    moreover from Cons.prems(2) m True have "VRef g \<notin> set ms"
      by simp
    ultimately show ?thesis
      using Cons.IH [OF rest, of "old @ [VRef r]"] Cons.prems(2) m True by simp
  next
    case False
    with xs Cons.prems(3) have "getp h1 g ''references'' = VArr old"
      by simp
    then show ?thesis
      using Cons.IH [OF rest, of old] Cons.prems(2) m False by simp
  qed
qed

lemma pushReference_error: "pushReference r ms h = Inl e \<Longrightarrow> e = TypeError"
proof (induction ms arbitrary: h)
  case Nil
  then show ?case by simp
next
  case (Cons m ms)
  then show ?case
    by (cases m) (auto simp add: bindE_def pushp_def split: sum.splits jsval.splits)
qed


lemma distinct_matchedGroups: "distinct gs \<Longrightarrow> distinct (matchedGroups h gs ref)"
  by (simp add: matchedGroups_def distinct_map inj_on_def)

lemma matchedGroups_cong:
  "(\<And>g. getp h' g ''name'' = getp h g ''name'') \<Longrightarrow>
     matchedGroups h' gs ref = matchedGroups h gs ref"
  by (simp add: matchedGroups_def)

lemma resolveReference_frame:
  assumes "resolveReference gs r h = Inr h'"
  shows "length h' = length h"
    and "k \<noteq> ''ambiguous'' \<Longrightarrow> k \<noteq> ''resolved'' \<Longrightarrow> k \<noteq> ''references'' \<Longrightarrow>
           getp h' a k = getp h a k"
    and "a \<noteq> r \<Longrightarrow> k \<noteq> ''references'' \<Longrightarrow> getp h' a k = getp h a k"
    and "\<forall>m \<in> set (matchedGroups h gs (getp h r ''ref'')). \<exists>g. m = VRef g"
  using assms pushReference_frame [of r "matchedGroups h gs (getp h r ''ref'')" _ h']
    pushReference_refs [of r "matchedGroups h gs (getp h r ''ref'')" _ h']
  by (auto simp add: resolveReference_def Let_def split: if_splits)

lemma resolveReference_resolved:
  assumes "resolveReference gs r h = Inr h'" and "r < length h"
  shows "getp h' r ''resolved'' =
           (if length (matchedGroups h gs (getp h r ''ref'')) = 1
            then hd (matchedGroups h gs (getp h r ''ref''))
            else VArr (matchedGroups h gs (getp h r ''ref'')))"
    and "getp h' r ''ambiguous'' =
           VBool (length (matchedGroups h gs (getp h r ''ref'')) \<noteq> 1)"
  using assms pushReference_frame [of r "matchedGroups h gs (getp h r ''ref'')" _ h']
  by (auto simp add: resolveReference_def Let_def split: if_splits)

lemma resolveReference_references:
  assumes "resolveReference gs r h = Inr h'" and "distinct gs"
    and "getp h g ''references'' = VArr old"
  shows "getp h' g ''references'' =
           VArr (old @ (if VRef g \<in> set (matchedGroups h gs (getp h r ''ref''))
                        then [VRef r] else []))"
proof -
  let ?ms = "matchedGroups h gs (getp h r ''ref'')"
  let ?h1 = "if length ?ms = 1
             then setp (setp h r ''ambiguous'' (VBool False)) r ''resolved'' (hd ?ms)
             else setp (setp h r ''ambiguous'' (VBool True)) r ''resolved'' (VArr ?ms)"
  have push: "pushReference r ?ms ?h1 = Inr h'"
    using assms(1) by (simp add: resolveReference_def Let_def)
  have "getp ?h1 g ''references'' = VArr old"
    using assms(3) by simp
  from pushReference_references [OF push distinct_matchedGroups [OF assms(2)] this]
  show ?thesis .
qed

lemma resolveReference_error: "resolveReference gs r h = Inl e \<Longrightarrow> e = TypeError"
  by (auto simp add: resolveReference_def Let_def dest: pushReference_error)

lemma resolveAll_error: "resolveAll gs rs h = Inl e \<Longrightarrow> e = TypeError"
proof (induction rs arbitrary: h)
  case Nil
  then show ?case by simp
next
  case (Cons r rs)
  then show ?case
    by (auto simp add: bindE_def split: sum.splits dest: resolveReference_error)
qed

lemma resolveAll_frame:
  "resolveAll gs rs h = Inr h' \<Longrightarrow>
     length h' = length h \<and>
     (\<forall>a k. k \<noteq> ''ambiguous'' \<and> k \<noteq> ''resolved'' \<and> k \<noteq> ''references'' \<longrightarrow>
            getp h' a k = getp h a k)"
proof (induction rs arbitrary: h)
  case Nil
  then show ?case by simp
next
  case (Cons r rs)
  from Cons.prems obtain h1 where
    h1: "resolveReference gs r h = Inr h1" and rest: "resolveAll gs rs h1 = Inr h'"
    by (auto simp add: bindE_def split: sum.splits)
  from Cons.IH [OF rest] resolveReference_frame(1,2) [OF h1] show ?case
    by simp
qed

lemma resolveAll_resolved:
  "resolveAll gs rs h = Inr h' \<Longrightarrow> r \<in> set rs \<Longrightarrow> r < length h \<Longrightarrow>
     (\<forall>m \<in> set (matchedGroups h gs (getp h r ''ref'')). \<exists>g. m = VRef g) \<and>
     getp h' r ''resolved'' =
       (if length (matchedGroups h gs (getp h r ''ref'')) = 1
        then hd (matchedGroups h gs (getp h r ''ref''))
        else VArr (matchedGroups h gs (getp h r ''ref''))) \<and>
     getp h' r ''ambiguous'' = VBool (length (matchedGroups h gs (getp h r ''ref'')) \<noteq> 1)"
proof (induction rs arbitrary: h)
  case Nil
  then show ?case by simp
next
  case (Cons x rs)
  from Cons.prems(1) obtain h1 where
    h1: "resolveReference gs x h = Inr h1" and rest: "resolveAll gs rs h1 = Inr h'"
    by (auto simp add: bindE_def split: sum.splits)
  have same: "matchedGroups h1 gs ref = matchedGroups h gs ref" for ref
    by (rule matchedGroups_cong) (simp add: resolveReference_frame(2) [OF h1])
  have ref: "getp h1 r ''ref'' = getp h r ''ref''"
    by (simp add: resolveReference_frame(2) [OF h1])
  have len: "length h1 = length h"
    by (rule resolveReference_frame(1) [OF h1])
  show ?case
  proof (cases "r \<in> set rs")
    case True
    from Cons.IH [OF rest True] Cons.prems(3) show ?thesis
      by (simp add: same ref len)
  next
    case False
    with Cons.prems(2) have x: "x = r"
      by simp
    have keep: "getp h' r k = getp h1 r k" if "k \<noteq> ''references''" for k
      using rest False that
    proof (induction rs arbitrary: h1)
      case Nil
      then show ?case by simp
    next
      case (Cons y ys)
      from Cons.prems(1) obtain h2 where
        h2: "resolveReference gs y h1 = Inr h2" and more: "resolveAll gs ys h2 = Inr h'"
        by (auto simp add: bindE_def split: sum.splits)
      from Cons.prems(2) have "r \<noteq> y" "r \<notin> set ys"
        by auto
      with Cons.IH [OF more] resolveReference_frame(3) [OF h2, of r k] that show ?case
        by simp
    qed
    from resolveReference_resolved [OF h1 [unfolded x] Cons.prems(3)]
      resolveReference_frame(4) [OF h1 [unfolded x]] keep
    show ?thesis
      by simp
  qed
qed

lemma resolveAll_references:
  "resolveAll gs rs h = Inr h' \<Longrightarrow> distinct gs \<Longrightarrow> getp h g ''references'' = VArr old \<Longrightarrow>
     getp h' g ''references'' =
       VArr (old @ map VRef
         (filter (\<lambda>r. VRef g \<in> set (matchedGroups h gs (getp h r ''ref''))) rs))"
proof (induction rs arbitrary: h old)
  case Nil
  then show ?case by simp
next
  case (Cons x rs)
  from Cons.prems(1) obtain h1 where
    h1: "resolveReference gs x h = Inr h1" and rest: "resolveAll gs rs h1 = Inr h'"
    by (auto simp add: bindE_def split: sum.splits)
  have same: "matchedGroups h1 gs ref = matchedGroups h gs ref" for ref
    by (rule matchedGroups_cong) (simp add: resolveReference_frame(2) [OF h1])
  have ref: "getp h1 r ''ref'' = getp h r ''ref''" for r
    by (simp add: resolveReference_frame(2) [OF h1])
  from resolveReference_references [OF h1 Cons.prems(2,3)]
    Cons.IH [OF rest Cons.prems(2)]
  show ?case
    by (simp add: same ref)
qed


lemma matched_candidates:
  assumes "\<forall>m \<in> set (matchedGroups h gs ref). \<exists>g. m = VRef g"
    and "(\<exists>k. ref = VNum k) \<or> (\<exists>name. ref = VStr name)"
  shows "matchedGroups h gs ref = map VRef (candidateGroups h gs ref)"
  using assms
  by (auto simp add: matchedGroups_def candidateGroups_def isNumber_def groupAt_def
        split: if_splits)

lemma onPatternLeave_Inr:
  assumes "onPatternLeave start endp st = Inr st'"
  obtains n h2 where "node st = VRef n"
    and "h2 = setp (setp (heap st) n ''end'' (VNum endp)) n ''raw''
                (VStr (sliceStr (source st) start endp))"
    and "resolveAll (capturingGroups st) (backreferences st) h2 = Inr (heap st')"
  using assms
  by (auto simp add: onPatternLeave_def Let_def bindE_def split: jsval.splits sum.splits)

lemma onPatternLeave_error: "onPatternLeave start endp st = Inl e \<Longrightarrow> e = TypeError"
  by (auto simp add: onPatternLeave_def Let_def bindE_def split: jsval.splits sum.splits
        dest: resolveAll_error)

text \<open>
  C2. When \<open>onPatternLeave\<close> succeeds, every pending reference whose candidate set (the
  group with its number, or the groups with its name) has exactly one member has that
  group as \<open>resolved\<close> and \<open>ambiguous = false\<close>; with more than one member \<open>resolved\<close> is
  the list of the groups and \<open>ambiguous = true\<close>; and the \<open>references\<close> list of every
  group is its old list followed by the pending references that matched it, in order.
\<close>

theorem onPatternLeave_resolves_references:
  assumes ok: "onPatternLeave start endp st = Inr st'"
    and refs: "\<forall>r \<in> set (backreferences st). r < length (heap st) \<and>
        ((\<exists>k. getp (heap st) r ''ref'' = VNum k) \<or>
         (\<exists>name. getp (heap st) r ''ref'' = VStr name))"
    and dist: "distinct (capturingGroups st)"
  shows "(\<forall>r \<in> set (backreferences st).
      (length (candidateGroups (heap st) (capturingGroups st) (getp (heap st) r ''ref'')) = 1 \<longrightarrow>
         getp (heap st') r ''resolved'' =
           VRef (hd (candidateGroups (heap st) (capturingGroups st)
                       (getp (heap st) r ''ref''))) \<and>
         getp (heap st') r ''ambiguous'' = VBool False) \<and>
      (length (candidateGroups (heap st) (capturingGroups st) (getp (heap st) r ''ref'')) > 1 \<longrightarrow>
         getp (heap st') r ''resolved'' =
           VArr (map VRef (candidateGroups (heap st) (capturingGroups st)
                             (getp (heap st) r ''ref''))) \<and>
         getp (heap st') r ''ambiguous'' = VBool True)) \<and>
    (\<forall>g old. getp (heap st) g ''references'' = VArr old \<longrightarrow>
       getp (heap st') g ''references'' =
         VArr (old @ map VRef
           (filter (\<lambda>r. g \<in> set (candidateGroups (heap st) (capturingGroups st)
                                    (getp (heap st) r ''ref'')))
              (backreferences st))))"
proof -
  from ok obtain n h2 where n: "node st = VRef n"
    and h2: "h2 = setp (setp (heap st) n ''end'' (VNum endp)) n ''raw''
                    (VStr (sliceStr (source st) start endp))"
    and run: "resolveAll (capturingGroups st) (backreferences st) h2 = Inr (heap st')"
    by (rule onPatternLeave_Inr)
  let ?gs = "capturingGroups st"
  have len: "length h2 = length (heap st)"
    by (simp add: h2)
  have same: "getp h2 a k = getp (heap st) a k" if "k \<noteq> ''end''" "k \<noteq> ''raw''" for a k
    using that by (simp add: h2)
  have ms: "matchedGroups h2 ?gs ref = matchedGroups (heap st) ?gs ref" for ref
    by (rule matchedGroups_cong) (simp add: same)
  have cand: "matchedGroups h2 ?gs (getp h2 r ''ref'') =
      map VRef (candidateGroups (heap st) ?gs (getp (heap st) r ''ref''))"
    if "r \<in> set (backreferences st)" for r
  proof -
    from that refs have r: "r < length h2"
      by (simp add: len)
    from resolveAll_resolved [OF run that r]
    have "\<forall>m \<in> set (matchedGroups (heap st) ?gs (getp (heap st) r ''ref'')). \<exists>g. m = VRef g"
      by (simp add: ms same)
    from matched_candidates [OF this] that refs show ?thesis
      by (simp add: ms same)
  qed
  show ?thesis
  proof (intro conjI ballI allI impI)
    fix r
    assume r: "r \<in> set (backreferences st)"
    assume one: "length (candidateGroups (heap st) ?gs (getp (heap st) r ''ref'')) = 1"
    from r refs have "r < length h2"
      by (simp add: len)
    from resolveAll_resolved [OF run r this] one
    show "getp (heap st') r ''resolved'' =
        VRef (hd (candidateGroups (heap st) ?gs (getp (heap st) r ''ref'')))"
      and "getp (heap st') r ''ambiguous'' = VBool False"
      by (simp_all add: cand [OF r] hd_map length_0_conv [symmetric] del: length_0_conv)
  next
    fix r
    assume r: "r \<in> set (backreferences st)"
    assume many: "1 < length (candidateGroups (heap st) ?gs (getp (heap st) r ''ref''))"
    from r refs have "r < length h2"
      by (simp add: len)
    from resolveAll_resolved [OF run r this] many
    show "getp (heap st') r ''resolved'' =
        VArr (map VRef (candidateGroups (heap st) ?gs (getp (heap st) r ''ref'')))"
      and "getp (heap st') r ''ambiguous'' = VBool True"
      by (simp_all add: cand [OF r])
  next
    fix g old
    assume old: "getp (heap st) g ''references'' = VArr old"
    then have "getp h2 g ''references'' = VArr old"
      by (simp add: same)
    from resolveAll_references [OF run dist this]
    have "getp (heap st') g ''references'' =
        VArr (old @ map VRef
          (filter (\<lambda>r. VRef g \<in> set (matchedGroups h2 ?gs (getp h2 r ''ref'')))
             (backreferences st)))" .
    moreover have "filter (\<lambda>r. VRef g \<in> set (matchedGroups h2 ?gs (getp h2 r ''ref'')))
        (backreferences st) =
      filter (\<lambda>r. g \<in> set (candidateGroups (heap st) ?gs (getp (heap st) r ''ref'')))
        (backreferences st)"
      by (rule filter_cong) (auto simp add: cand)
    ultimately show "getp (heap st') g ''references'' =
        VArr (old @ map VRef
          (filter (\<lambda>r. g \<in> set (candidateGroups (heap st) ?gs (getp (heap st) r ''ref'')))
             (backreferences st)))"
      by simp
  qed
qed

text \<open>
  The theorem at \<open>(?<n>a)|(?<n>b)|\k<n>\1\<close>: the groups are objects 5 and 9, the
  references objects 13 (by name) and 14 (by number).
\<close>

lemma namedGroupsState_eq:
  "namedGroupsState =
     \<lparr>strict = False, ecmaVersion = 2025, node = VRef 3, expressionBufferMap = [],
      flags = VRef 1, backreferences = [13, 14], capturingGroups = [5, 9],
      source = ustr ''(?<n>a)|(?<n>b)|'' @ [0x5C] @ ustr ''k<n>'' @ [0x5C, 0x31],
      heap =
        [[], [], [],
         mkNode ''Pattern'' VNull 0 0 []
           [(''alternatives'', VArr [VRef 4, VRef 8, VRef 12])],
         mkNode ''Alternative'' (VRef 3) 0 7 (ustr ''(?<n>a)'') [(''elements'', VArr [VRef 5])],
         mkNode ''CapturingGroup'' (VRef 4) 0 7 (ustr ''(?<n>a)'')
           [(''name'', S ''n''), (''alternatives'', VArr [VRef 6]), (''references'', VArr [])],
         mkNode ''Alternative'' (VRef 5) 5 6 (ustr ''a'') [(''elements'', VArr [VRef 7])],
         mkNode ''Character'' (VRef 6) 5 6 (ustr ''a'') [(''value'', VNum 97)],
         mkNode ''Alternative'' (VRef 3) 8 15 (ustr ''(?<n>b)'') [(''elements'', VArr [VRef 9])],
         mkNode ''CapturingGroup'' (VRef 8) 8 15 (ustr ''(?<n>b)'')
           [(''name'', S ''n''), (''alternatives'', VArr [VRef 10]), (''references'', VArr [])],
         mkNode ''Alternative'' (VRef 9) 13 14 (ustr ''b'') [(''elements'', VArr [VRef 11])],
         mkNode ''Character'' (VRef 10) 13 14 (ustr ''b'') [(''value'', VNum 98)],
         mkNode ''Alternative'' (VRef 3) 16 23 ([0x5C] @ ustr ''k<n>'' @ [0x5C, 0x31])
           [(''elements'', VArr [VRef 13, VRef 14])],
         mkNode ''Backreference'' (VRef 12) 16 21 ([0x5C] @ ustr ''k<n>'')
           [(''ref'', S ''n''), (''ambiguous'', VBool False), (''resolved'', VRef 2)],
         mkNode ''Backreference'' (VRef 12) 21 23 [0x5C, 0x31]
           [(''ref'', VNum 1), (''ambiguous'', VBool False), (''resolved'', VRef 2)]]\<rparr>"
  by code_simp

theorem onPatternLeave_resolves_references_witness:
  "getp (heap (stateOf (onPatternLeave 0 23 namedGroupsState))) 13 ''resolved'' =
     VArr [VRef 5, VRef 9] \<and>
   getp (heap (stateOf (onPatternLeave 0 23 namedGroupsState))) 13 ''ambiguous'' = VBool True \<and>
   getp (heap (stateOf (onPatternLeave 0 23 namedGroupsState))) 14 ''resolved'' = VRef 5 \<and>
   getp (heap (stateOf (onPatternLeave 0 23 namedGroupsState))) 14 ''ambiguous'' = VBool False \<and>
   getp (heap (stateOf (onPatternLeave 0 23 namedGroupsState))) 5 ''references'' =
     VArr [VRef 13, VRef 14] \<and>
   getp (heap (stateOf (onPatternLeave 0 23 namedGroupsState))) 9 ''references'' =
     VArr [VRef 13]"
proof -
  let ?st = "namedGroupsState"
  let ?st' = "stateOf (onPatternLeave 0 23 namedGroupsState)"
  have ok: "onPatternLeave 0 23 ?st = Inr ?st'"
    unfolding namedGroupsState_eq by code_simp
  have refs: "\<forall>r \<in> set (backreferences ?st). r < length (heap ?st) \<and>
      ((\<exists>k. getp (heap ?st) r ''ref'' = VNum k) \<or>
       (\<exists>name. getp (heap ?st) r ''ref'' = VStr name))"
    by (simp add: namedGroupsState_eq getp_def mkNode_def)
  have dist: "distinct (capturingGroups ?st)"
    by (simp add: namedGroupsState_eq)
  have st: "backreferences ?st = [13, 14]"
    "candidateGroups (heap ?st) (capturingGroups ?st) (getp (heap ?st) 13 ''ref'') = [5, 9]"
    "candidateGroups (heap ?st) (capturingGroups ?st) (getp (heap ?st) 14 ''ref'') = [5]"
    "getp (heap ?st) 5 ''references'' = VArr []"
    "getp (heap ?st) 9 ''references'' = VArr []"
    by (simp_all add: namedGroupsState_eq candidateGroups_def getp_def mkNode_def)
  from onPatternLeave_resolves_references [OF ok refs dist] show ?thesis
    by (simp add: st)
qed

subsection \<open>C1: the tree a cache hit returns\<close>

text \<open>
  C1, evaluated at two calls of \<open>parseLiteral("/(a)\\1/")\<close>. The first call builds the tree
  and stores it in the cache; its second element of the alternative is the Backreference,
  resolved to the CapturingGroup. The second call is answered by \<open>cloneAST\<close> of the cache
  entry: the replacer answers \<open>undefined\<close> for every object it has already seen, so the
  Backreference, first met in the group's \<open>references\<close>, is \<open>null\<close> in the element list, and
  its \<open>resolved\<close> (the group, already seen) is missing.
\<close>

theorem parseLiteral_cache_hit_loses_backreference:
  "case (firstLiteralParse, secondLiteralParse) of
     (Inr (ast1, st1, _), Inr (ast2, st2, _)) \<Rightarrow>
       follow (heap st1) ast1
         [P ''pattern'', P ''alternatives'', I 0, P ''elements'', I 1, P ''type''] =
         S ''Backreference'' \<and>
       follow (heap st1) ast1
         [P ''pattern'', P ''alternatives'', I 0, P ''elements'', I 1, P ''resolved'',
          P ''type''] = S ''CapturingGroup'' \<and>
       follow (heap st2) ast2
         [P ''pattern'', P ''alternatives'', I 0, P ''elements'', I 1] = VNull \<and>
       follow (heap st2) ast2
         [P ''pattern'', P ''alternatives'', I 0, P ''elements'', I 0, P ''references'', I 0,
          P ''type''] = S ''Backreference'' \<and>
       follow (heap st2) ast2
         [P ''pattern'', P ''alternatives'', I 0, P ''elements'', I 0, P ''references'', I 0,
          P ''resolved''] = VUndef
   | _ \<Rightarrow> False"
  by code_simp

subsection \<open>C9: the key of the flags cache\<close>

text \<open>
  C9, evaluated at \<open>parseFlags("d")\<close> on a parser for ES2025 followed by \<open>parseFlags("d")\<close>
  on a parser for ES2015. The validator refuses \<open>d\<close> for ES2015, and with an empty cache the
  ES2015 parser reports that; after the ES2025 call it answers with a Flags node whose
  \<open>hasIndices\<close> is true, cloned from the entry the other parser made: the key of the flags
  cache is the flags text alone.
\<close>

theorem parseFlags_answers_from_other_options:
  "sampleValidateFlags False 2015 (ustr ''d'') 0 1 = Inl SyntaxError \<and>
   parseFlags sampleValidateFlags 32 1001 (ustr ''d'') 0 1 (newState False 2015 heap0)
     globalParseCache = Inl SyntaxError \<and>
   (case secondFlagsParse of
      Inr (flagsNode, st, _) \<Rightarrow>
        follow (heap st) flagsNode [P ''type''] = S ''Flags'' \<and>
        follow (heap st) flagsNode [P ''hasIndices''] = VBool True
    | Inl _ \<Rightarrow> False)"
  by code_simp

subsection \<open>C10: the fast path for simple literals\<close>

lemma length_characterObjects [simp]: "length (characterObjects cs pos) = length cs"
  by (induction cs arbitrary: pos) simp_all

lemma length_setParents [simp]: "length (setParents as p h) = length h"
  by (induction as arbitrary: h) simp_all

lemma setp_middle:
  "setp (h @ ob # rest) (length h) k v = h @ AList.update k v ob # rest"
  by (simp add: setp_def list_update_append)

lemma upt_block: "[a ..< a + Suc n] = a # [Suc a ..< Suc a + n]"
  by (subst upt_rec) simp

lemma setParents_block:
  "setParents [length h ..< length h + length objs] p (h @ objs @ rest) =
     h @ map (AList.update ''parent'' p) objs @ rest"
proof (induction objs arbitrary: h)
  case Nil
  then show ?case by simp
next
  case (Cons ob objs)
  have "[length h ..< length h + length (ob # objs)] =
      length h # [length (h @ [AList.update ''parent'' p ob]) ..<
                  length (h @ [AList.update ''parent'' p ob]) + length objs]"
    using upt_block [of "length h" "length objs"] by simp
  then show ?case
    using Cons.IH [of "h @ [AList.update ''parent'' p ob]"]
    by (simp add: setp_middle)
qed

lemma update_mkNode [simp]:
  "AList.update ''parent'' v (mkNode ty p s e r rest) = mkNode ty v s e r rest"
  "AList.update ''end'' (VNum e') (mkNode ty p s e r rest) = mkNode ty p s e' r rest"
  "AList.update ''raw'' (VStr r') (mkNode ty p s e r rest) = mkNode ty p s e r' rest"
  by (simp_all add: mkNode_def)

lemma objAt_append [simp]:
  "objAt (h @ h') a = (if a < length h then objAt h a else objAt h' (a - length h))"
  by (auto simp add: objAt_def nth_append)

lemma objAt_Cons [simp]:
  "objAt (ob # h) a = (if a = 0 then ob else objAt h (a - 1))"
  by (cases a) (auto simp add: objAt_def)

lemma objAt_Nil [simp]: "objAt [] a = []"
  by (simp add: objAt_def)

lemma those_map_Some:
  "(\<And>x. x \<in> set xs \<Longrightarrow> f x = Some (g x)) \<Longrightarrow> those (map f xs) = Some (map g xs)"
  by (induction xs) simp_all

lemma snapshot_character:
  "objAt H a = mkNode ''Character'' p pos (pos + 1) [c] [(''value'', VNum (int c))] \<Longrightarrow>
     snapshot (Suc (Suc depth)) H (VRef a) =
       Some (Obj [(''type'', Leaf (S ''Character'')), (''start'', Leaf (VNum pos)),
                  (''end'', Leaf (VNum (pos + 1))), (''raw'', Leaf (VStr [c])),
                  (''value'', Leaf (VNum (int c)))])"
  by (simp add: mkNode_def)

lemma snapshot_characters:
  "those (map (snapshot (Suc (Suc depth))
                 (h @ map (AList.update ''parent'' p) (characterObjects cs pos) @ rest))
            (map VRef [length h ..< length h + length cs])) =
     Some (characterTrees cs pos)"
proof (induction cs arbitrary: h pos)
  case Nil
  then show ?case by simp
next
  case (Cons c cs)
  let ?ob = "mkNode ''Character'' p pos (pos + 1) [c] [(''value'', VNum (int c))]"
  let ?H = "h @ map (AList.update ''parent'' p) (characterObjects (c # cs) pos) @ rest"
  have H: "?H = (h @ [?ob]) @ map (AList.update ''parent'' p) (characterObjects cs (pos + 1)) @ rest"
    by simp
  have first: "snapshot (Suc (Suc depth)) ?H (VRef (length h)) =
      Some (Obj [(''type'', Leaf (S ''Character'')), (''start'', Leaf (VNum pos)),
                 (''end'', Leaf (VNum (pos + 1))), (''raw'', Leaf (VStr [c])),
                 (''value'', Leaf (VNum (int c)))])"
    by (rule snapshot_character) simp
  have others: "those (map (snapshot (Suc (Suc depth)) ?H)
      (map VRef [Suc (length h) ..< Suc (length h) + length cs])) =
      Some (characterTrees cs (pos + 1))"
    using Cons.IH [of "h @ [?ob]" "pos + 1"] unfolding H length_append_singleton .
  have "[length h ..< length h + length (c # cs)] =
      length h # [Suc (length h) ..< Suc (length h) + length cs]"
    using upt_block [of "length h" "length cs"] by simp
  then have "those (map (snapshot (Suc (Suc depth)) ?H)
      (map VRef [length h ..< length h + length (c # cs)])) =
    those (snapshot (Suc (Suc depth)) ?H (VRef (length h)) #
      map (snapshot (Suc (Suc depth)) ?H)
        (map VRef [Suc (length h) ..< Suc (length h) + length cs]))"
    by (simp only: list.map)
  also have "\<dots> = Some (characterTrees (c # cs) pos)"
    unfolding first using others by (simp del: snapshot.simps)
  finally show ?case .
qed


lemma snapshot_simple_literal:
  assumes "objAt H p = mkNode ''Pattern'' par start endp pat [(''alternatives'', VArr [VRef alt])]"
    and "objAt H alt = mkNode ''Alternative'' par' start endp pat [(''elements'', VArr els)]"
    and "those (map (snapshot (Suc (Suc 0)) H) els) = Some (characterTrees pat start)"
  shows "snapshot 6 H (VRef p) = Some (simpleLiteralTree pat start endp)"
proof -
  have six: "(6::nat) = Suc (Suc (Suc (Suc (Suc (Suc 0)))))"
    by simp
  have elements: "snapshot (Suc (Suc (Suc 0))) H (VArr els) = Some (Arr (characterTrees pat start))"
    using assms(3) by (simp del: snapshot.simps(2) add: snapshot.simps(2) [of "Suc (Suc 0)"])
  have alternative: "snapshot (Suc (Suc (Suc (Suc 0)))) H (VRef alt) =
      Some (Obj [(''type'', Leaf (S ''Alternative'')), (''start'', Leaf (VNum start)),
                 (''end'', Leaf (VNum endp)), (''raw'', Leaf (VStr pat)),
                 (''elements'', Arr (characterTrees pat start))])"
    using elements assms(2)
    by (simp del: snapshot.simps(2)
          add: snapshot.simps(2) [of "Suc (Suc (Suc 0))" H "VRef alt"]
               snapshot.simps(2) [of "Suc (Suc 0)" H "VNum x" for x]
               snapshot.simps(2) [of "Suc (Suc 0)" H "VStr x" for x] mkNode_def)
  show ?thesis
    unfolding six using alternative assms(1)
    by (simp del: snapshot.simps(2)
          add: snapshot.simps(2) [of "Suc (Suc (Suc (Suc (Suc 0))))" H "VRef p"]
               snapshot.simps(2) [of "Suc (Suc (Suc (Suc 0)))" H "VNum x" for x]
               snapshot.simps(2) [of "Suc (Suc (Suc (Suc 0)))" H "VStr x" for x]
               snapshot.simps(2) [of "Suc (Suc (Suc (Suc 0)))" H "VArr x" for x]
               mkNode_def simpleLiteralTree_def)
qed

lemma createSimpleLiteralAST_heap:
  "createSimpleLiteralAST pat start endp h =
     (length h + length pat + 1,
      h @ map (AList.update ''parent'' (VRef (length h + length pat)))
            (characterObjects pat start) @
      [mkNode ''Alternative'' (VRef (length h + length pat + 1)) start endp pat
         [(''elements'', VArr (map VRef [length h ..< length h + length pat]))],
       mkNode ''Pattern'' VNull start endp pat
         [(''alternatives'', VArr [VRef (length h + length pat)])]])"
proof -
  let ?alt = "mkNode ''Alternative'' VNull start endp pat
      [(''elements'', VArr (map VRef [length h ..< length h + length pat]))]"
  let ?objs = "map (AList.update ''parent'' (VRef (length h + length pat)))
      (characterObjects pat start)"
  have block: "setParents [length h ..< length h + length pat] (VRef (length h + length pat))
      (h @ characterObjects pat start @ [?alt]) = h @ ?objs @ [?alt]"
    using setParents_block [of h "characterObjects pat start" _ "[?alt]"] by simp
  have "setp ((h @ ?objs) @ ?alt # []) (length (h @ ?objs)) ''parent'' v =
      (h @ ?objs) @ AList.update ''parent'' v ?alt # []" for v
    by (rule setp_middle)
  then have parent: "setp (h @ ?objs @ [?alt]) (length h + length pat) ''parent'' v =
      h @ ?objs @ [AList.update ''parent'' v ?alt]" for v
    by simp
  show ?thesis
    by (simp add: createSimpleLiteralAST_def Let_def block parent del: upt_Suc)
qed


lemma setp_same: "getp h a k = v \<Longrightarrow> v \<noteq> VUndef \<Longrightarrow> setp h a k v = h"
  by (auto simp add: getp_def setp_def update_triv split: if_splits option.splits)

lemma setp_setp [simp]: "setp (setp h a k v) a k w = setp h a k w"
  by (simp add: setp_def)

lemma run_append: "run (xs @ ys) st = bindE (run xs st) (run ys)"
  by (induction xs arbitrary: st) (simp_all add: bindE_def split: sum.splits)

lemma run_append3:
  "run (xs @ ys @ zs) st =
     (case run xs st of
        Inl e \<Rightarrow> Inl e
      | Inr s1 \<Rightarrow> (case run ys s1 of Inl e \<Rightarrow> Inl e | Inr s2 \<Rightarrow> run zs s2))"
  by (simp add: run_append bindE_def split: sum.splits)

lemma run_characterEvents:
  assumes "node st = VRef alt"
    and "getp (heap st) alt ''type'' = S ''Alternative''"
    and "getp (heap st) alt ''elements'' = VArr es"
    and "\<forall>i < length cs. sliceStr (source st) (pos + int i) (pos + int i + 1) = [cs ! i]"
  shows "run (characterEvents cs pos) st =
    Inr (st\<lparr>heap :=
           setp (heap st) alt ''elements''
             (VArr (es @ map VRef [length (heap st) ..< length (heap st) + length cs])) @
           map (AList.update ''parent'' (VRef alt)) (characterObjects cs pos)\<rparr>)"
  using assms
proof (induction cs arbitrary: st es pos)
  case Nil
  then show ?case
    by (simp add: setp_same)
next
  case (Cons c cs)
  let ?h = "heap st"
  let ?ob = "mkNode ''Character'' (VRef alt) pos (pos + 1) [c] [(''value'', VNum (int c))]"
  let ?st1 = "st\<lparr>heap := setp ?h alt ''elements'' (VArr (es @ [VRef (length ?h)])) @ [?ob]\<rparr>"
  have alt: "alt < length ?h"
    using Cons.prems(2) getp_valid [of ?h alt "''type''"] by simp
  have raw: "sliceStr (source st) pos (pos + 1) = [c]"
    using Cons.prems(4) [rule_format, of 0] by simp
  have step: "onCharacter pos (pos + 1) (int c) st = Inr ?st1"
    using Cons.prems(1-3) alt raw
    by (simp add: onCharacter_def pushLeaf_def withCursor_def pushp_def bindE_def Let_def)
  have raws: "\<forall>i < length cs.
      sliceStr (source ?st1) (pos + 1 + int i) (pos + 1 + int i + 1) = [cs ! i]"
  proof (intro allI impI)
    fix i
    assume "i < length cs"
    then show "sliceStr (source ?st1) (pos + 1 + int i) (pos + 1 + int i + 1) = [cs ! i]"
      using Cons.prems(4) [rule_format, of "Suc i"] by (simp add: add.commute add.left_commute)
  qed
  have "run (characterEvents cs (pos + 1)) ?st1 =
    Inr (?st1\<lparr>heap :=
           setp (heap ?st1) alt ''elements''
             (VArr ((es @ [VRef (length ?h)]) @
                    map VRef [length (heap ?st1) ..< length (heap ?st1) + length cs])) @
           map (AList.update ''parent'' (VRef alt)) (characterObjects cs (pos + 1))\<rparr>)"
    using Cons.prems(1,2) alt
    by (intro Cons.IH raws) simp_all
  moreover have "[length ?h ..< length ?h + length (c # cs)] =
      length ?h # [Suc (length ?h) ..< Suc (length ?h) + length cs]"
    using upt_block [of "length ?h" "length cs"] by simp
  ultimately show ?case
    using step alt by (simp add: bindE_def del: upt_Suc)
qed


lemma sliceStr_in_range:
  assumes "0 \<le> start" and "start \<le> endp" and "endp \<le> int (length src)"
  shows "sliceStr src start endp = take (nat (endp - start)) (drop (nat start) src)"
    and "length (sliceStr src start endp) = nat (endp - start)"
  using assms by (auto simp add: sliceStr_def Let_def min_def)

lemma sliceStr_unit:
  assumes "0 \<le> start" and "start \<le> endp" and "endp \<le> int (length src)"
    and "i < length (sliceStr src start endp)"
  shows "sliceStr src (start + int i) (start + int i + 1) = [sliceStr src start endp ! i]"
proof -
  from assms have i: "i < nat (endp - start)"
    by (simp add: sliceStr_in_range(2))
  with assms(1-3) have lt: "nat start + i < length src"
    by linarith
  have "sliceStr src (start + int i) (start + int i + 1) =
      take 1 (drop (nat (start + int i)) src)"
    using assms(1-3) i by (subst sliceStr_in_range(1)) simp_all
  also have "nat (start + int i) = nat start + i"
    using assms(1) by linarith
  also have "take 1 (drop (nat start + i) src) = [src ! (nat start + i)]"
    using lt by (simp add: take_Suc_conv_app_nth)
  also have "src ! (nat start + i) = sliceStr src start endp ! i"
    using assms(1-3) i lt by (simp add: sliceStr_in_range(1))
  finally show ?thesis .
qed

lemma run_simpleLiteralEvents:
  assumes "0 \<le> start" and "start \<le> endp" and "endp \<le> int (length src)"
  shows "\<exists>st2. run (simpleLiteralEvents src start endp) (st\<lparr>source := src\<rparr>) = Inr st2 \<and>
    node st2 = VRef (length (heap st)) \<and>
    heap st2 =
      (heap st @
       [mkNode ''Pattern'' VNull start endp (sliceStr src start endp)
          [(''alternatives'', VArr [VRef (Suc (length (heap st)))])],
        mkNode ''Alternative'' (VRef (length (heap st))) start endp (sliceStr src start endp)
          [(''elements'',
            VArr (map VRef [length (heap st) + 2 ..<
                            length (heap st) + 2 + length (sliceStr src start endp)]))]]) @
      map (AList.update ''parent'' (VRef (Suc (length (heap st)))))
        (characterObjects (sliceStr src start endp) start) @ []"
proof -
  let ?h = "heap st"
  let ?pat = "sliceStr src start endp"
  let ?P0 = "mkNode ''Pattern'' VNull start start [] [(''alternatives'', VArr [VRef (Suc (length ?h))])]"
  let ?A0 = "mkNode ''Alternative'' (VRef (length ?h)) start start [] [(''elements'', VArr [])]"
  let ?st1 = "st\<lparr>source := src, node := VRef (Suc (length ?h)), backreferences := [],
      capturingGroups := [], heap := ?h @ [?P0, ?A0]\<rparr>"
  have enter: "run [PatternEnter start, AlternativeEnter start] (st\<lparr>source := src\<rparr>) = Inr ?st1"
    by (simp add: onPatternEnter_def onAlternativeEnter_def withCursor_def pushp_def
          bindE_def Let_def mkNode_def getp_def setp_def nth_append list_update_append)
  let ?objs = "map (AList.update ''parent'' (VRef (Suc (length ?h)))) (characterObjects ?pat start)"
  let ?els = "VArr (map VRef [length ?h + 2 ..< length ?h + 2 + length ?pat])"
  let ?A1 = "mkNode ''Alternative'' (VRef (length ?h)) start start [] [(''elements'', ?els)]"
  let ?st2 = "?st1\<lparr>heap := (?h @ [?P0, ?A1]) @ ?objs\<rparr>"
  have chars: "run (characterEvents ?pat start) ?st1 = Inr ?st2"
  proof -
    have "run (characterEvents ?pat start) ?st1 =
      Inr (?st1\<lparr>heap :=
             setp (heap ?st1) (Suc (length ?h)) ''elements''
               (VArr ([] @ map VRef [length (heap ?st1) ..< length (heap ?st1) + length ?pat])) @
             ?objs\<rparr>)"
    proof (rule run_characterEvents)
      show "\<forall>i < length ?pat.
          sliceStr (source ?st1) (start + int i) (start + int i + 1) = [?pat ! i]"
        using sliceStr_unit [OF assms] by simp
    qed (simp_all add: mkNode_def getp_def nth_append)
    moreover have "setp (?h @ [?P0, ?A0]) (Suc (length ?h)) ''elements'' v =
        ?h @ [?P0, AList.update ''elements'' v ?A0]" for v
      using setp_middle [of "?h @ [?P0]" ?A0 "[]" "''elements''" v] by simp
    ultimately show ?thesis
      by (simp add: mkNode_def del: upt_Suc)
  qed
  let ?P2 = "mkNode ''Pattern'' VNull start endp ?pat [(''alternatives'', VArr [VRef (Suc (length ?h))])]"
  let ?A2 = "mkNode ''Alternative'' (VRef (length ?h)) start endp ?pat [(''elements'', ?els)]"
  let ?st3 = "?st1\<lparr>node := VRef (length ?h), heap := (?h @ [?P2, ?A2]) @ ?objs\<rparr>"
  have leave: "run [AlternativeLeave start endp, PatternLeave start endp] ?st2 = Inr ?st3"
    by (simp add: onAlternativeLeave_def onPatternLeave_def leaveNode_def withCursor_def
          bindE_def Let_def mkNode_def getp_def setp_def nth_append list_update_append
          del: upt_Suc)
  have "run (simpleLiteralEvents src start endp) (st\<lparr>source := src\<rparr>) = Inr ?st3"
    by (simp only: simpleLiteralEvents_def run_append3 enter chars leave sum.case)
  then show ?thesis
    by (intro exI [of _ ?st3]) simp
qed


text \<open>
  C10. When the slice is a simple literal, \<open>parsePattern\<close> answers with the tree of
  \<open>createSimpleLiteralAST\<close> whatever the validator, the flags, the options of the parser
  and the cache are, and leaves the cache as it was; the tree is the one the claim
  describes; and for offsets inside the source it is structurally equal, parents ignored,
  to the tree the assembler builds from the validator's calls for the same slice.
\<close>

theorem parsePattern_fast_path:
  assumes simple: "isSimpleLiteral (sliceStr src start endp)"
  shows "\<exists>p h'.
    (\<forall>validatePattern fuel now uFlagOrFlags c.
       parsePattern validatePattern fuel now src start endp uFlagOrFlags st c =
         Inr (VRef p, st\<lparr>heap := h'\<rparr>, c)) \<and>
    snapshot 6 h' (VRef p) = Some (simpleLiteralTree (sliceStr src start endp) start endp) \<and>
    (0 \<le> start \<and> start \<le> endp \<and> endp \<le> int (length src) \<longrightarrow>
       (\<exists>st2 p2. run (simpleLiteralEvents src start endp) (st\<lparr>source := src\<rparr>) = Inr st2 \<and>
          getPattern st2 = Inr p2 \<and>
          snapshot 6 (heap st2) (VRef p2) = snapshot 6 h' (VRef p)))"
proof -
  let ?h = "heap st"
  let ?pat = "sliceStr src start endp"
  let ?n = "length ?pat"
  let ?A = "mkNode ''Alternative'' (VRef (length ?h + ?n + 1)) start endp ?pat
      [(''elements'', VArr (map VRef [length ?h ..< length ?h + ?n]))]"
  let ?P = "mkNode ''Pattern'' VNull start endp ?pat
      [(''alternatives'', VArr [VRef (length ?h + ?n)])]"
  let ?objs = "map (AList.update ''parent'' (VRef (length ?h + ?n))) (characterObjects ?pat start)"
  let ?h' = "?h @ ?objs @ [?A, ?P]"
  let ?p = "length ?h + ?n + 1"
  have fast: "tryFastPath src start endp ?h = Some (?p, ?h')"
    using simple by (simp add: tryFastPath_def createSimpleLiteralAST_heap Let_def)
  have parse: "parsePattern validatePattern fuel now src start endp uFlagOrFlags st c =
      Inr (VRef ?p, st\<lparr>heap := ?h'\<rparr>, c)" for validatePattern fuel now uFlagOrFlags c
    by (simp add: parsePattern_def fast Let_def del: upt_Suc)
  have tree: "snapshot 6 ?h' (VRef ?p) = Some (simpleLiteralTree ?pat start endp)"
  proof (rule snapshot_simple_literal)
    show "objAt ?h' ?p = mkNode ''Pattern'' VNull start endp ?pat
        [(''alternatives'', VArr [VRef (length ?h + ?n)])]"
      by simp
    show "objAt ?h' (length ?h + ?n) = ?A"
      by simp
    show "those (map (snapshot (Suc (Suc 0)) ?h') (map VRef [length ?h ..< length ?h + ?n])) =
        Some (characterTrees ?pat start)"
      by (rule snapshot_characters)
  qed
  have full: "\<exists>st2 p2. run (simpleLiteralEvents src start endp) (st\<lparr>source := src\<rparr>) = Inr st2 \<and>
      getPattern st2 = Inr p2 \<and>
      snapshot 6 (heap st2) (VRef p2) = snapshot 6 ?h' (VRef ?p)"
    if range: "0 \<le> start \<and> start \<le> endp \<and> endp \<le> int (length src)"
  proof -
    let ?P2 = "mkNode ''Pattern'' VNull start endp ?pat
        [(''alternatives'', VArr [VRef (Suc (length ?h))])]"
    let ?A2 = "mkNode ''Alternative'' (VRef (length ?h)) start endp ?pat
        [(''elements'', VArr (map VRef [length ?h + 2 ..< length ?h + 2 + ?n]))]"
    let ?objs2 = "map (AList.update ''parent'' (VRef (Suc (length ?h))))
        (characterObjects ?pat start)"
    from range run_simpleLiteralEvents [of start endp src st] obtain st2 where
      run: "run (simpleLiteralEvents src start endp) (st\<lparr>source := src\<rparr>) = Inr st2"
      and cur: "node st2 = VRef (length ?h)"
      and heap: "heap st2 = (?h @ [?P2, ?A2]) @ ?objs2 @ []"
      by blast
    have pattern: "getPattern st2 = Inr (length ?h)"
      by (simp add: getPattern_def typeOf_def bindE_def cur heap getp_def nth_append mkNode_def)
    have "snapshot 6 (heap st2) (VRef (length ?h)) = Some (simpleLiteralTree ?pat start endp)"
    proof (rule snapshot_simple_literal)
      show "objAt (heap st2) (length ?h) = ?P2"
        by (simp add: heap)
      show "objAt (heap st2) (Suc (length ?h)) = ?A2"
        by (simp add: heap)
      show "those (map (snapshot (Suc (Suc 0)) (heap st2))
          (map VRef [length ?h + 2 ..< length ?h + 2 + ?n])) = Some (characterTrees ?pat start)"
        unfolding heap
        using snapshot_characters [of 0 "?h @ [?P2, ?A2]" "VRef (Suc (length ?h))" ?pat start "[]"]
        by simp
    qed
    with run pattern tree show ?thesis
      by simp
  qed
  show ?thesis
    using parse tree full by (intro exI [of _ ?p] exI [of _ ?h']) blast
qed

text \<open>The theorem at \<open>parsePattern("abc")\<close>.\<close>

theorem parsePattern_fast_path_witness:
  "\<exists>p h' st2 p2.
     parsePattern (\<lambda>_ _ _ _ _ _. Inl SyntaxError) 0 0 (ustr ''abc'') 0 3 NoFlags
       (newState False 2025 heap0) globalParseCache =
       Inr (VRef p, (newState False 2025 heap0)\<lparr>heap := h'\<rparr>, globalParseCache) \<and>
     snapshot 6 h' (VRef p) = Some (simpleLiteralTree (ustr ''abc'') 0 3) \<and>
     run (simpleLiteralEvents (ustr ''abc'') 0 3)
       ((newState False 2025 heap0)\<lparr>source := ustr ''abc''\<rparr>) = Inr st2 \<and>
     getPattern st2 = Inr p2 \<and>
     snapshot 6 (heap st2) (VRef p2) = snapshot 6 h' (VRef p)"
proof -
  have slice: "sliceStr (ustr ''abc'') 0 3 = ustr ''abc''"
    by (simp add: sliceStr_def ustr_def)
  have simple: "isSimpleLiteral (sliceStr (ustr ''abc'') 0 3)"
    unfolding slice by (simp add: isSimpleLiteral_def isWordUnit_def ustr_def)
  have range: "(0::int) \<le> 0 \<and> (0::int) \<le> 3 \<and> 3 \<le> int (length (ustr ''abc''))"
    by (simp add: ustr_def)
  from parsePattern_fast_path [OF simple, of "newState False 2025 heap0"] range
  show ?thesis
    unfolding slice by blast
qed

section \<open>What the handlers leave unchanged\<close>

lemma frame_refl [simp]: "frame h h"
  by (simp add: frame_def)

lemma frame_trans: "frame h h1 \<Longrightarrow> frame h1 h2 \<Longrightarrow> frame h h2"
  by (auto simp add: frame_def)

lemma frame_setp: "k \<in> mutableKeys \<Longrightarrow> frame h (setp h a k v)"
  by (auto simp add: frame_def)

lemma frame_append: "frame h (h @ obs)"
  by (simp add: frame_def getp_def nth_append)

lemma frame_pushp: "pushp h a k v = Inr h' \<Longrightarrow> k \<in> mutableKeys \<Longrightarrow> frame h h'"
  by (auto simp add: pushp_def frame_setp split: jsval.splits)

lemma frame_popp: "popp h a k = Inr (v, h') \<Longrightarrow> k \<in> mutableKeys \<Longrightarrow> frame h h'"
  by (auto simp add: popp_def frame_setp split: jsval.splits)

lemma frame_setParent: "setParent h v p = Inr h' \<Longrightarrow> frame h h'"
  by (auto simp add: setParent_def mutableKeys_def frame_setp split: jsval.splits)

lemma mutable [simp]:
  "''end'' \<in> mutableKeys" "''raw'' \<in> mutableKeys" "''parent'' \<in> mutableKeys"
  "''elements'' \<in> mutableKeys" "''alternatives'' \<in> mutableKeys"
  "''modifiers'' \<in> mutableKeys" "''add'' \<in> mutableKeys" "''remove'' \<in> mutableKeys"
  "''resolved'' \<in> mutableKeys" "''ambiguous'' \<in> mutableKeys"
  "''references'' \<in> mutableKeys"
  by (simp_all add: mutableKeys_def)

lemma immutable [simp]:
  "''type'' \<notin> mutableKeys" "''start'' \<notin> mutableKeys" "''name'' \<notin> mutableKeys"
  "''ref'' \<notin> mutableKeys" "''left'' \<notin> mutableKeys" "''right'' \<notin> mutableKeys"
  "''expression'' \<notin> mutableKeys"
  by (simp_all add: mutableKeys_def)

lemma frame_pushp_append:
  "pushp (h @ obs) a k v = Inr h' \<Longrightarrow> k \<in> mutableKeys \<Longrightarrow> frame h h'"
  by (blast intro: frame_trans frame_append frame_pushp)

lemmas frame_push =
  frame_pushp_append [where k = "''elements''", simplified]
  frame_pushp_append [where k = "''alternatives''", simplified]
  frame_pushp [where k = "''elements''", simplified]
  frame_popp [where k = "''elements''", simplified]

lemma frame_leaveNode [simp]: "frame (heap st) (heap (leaveNode n start endp st))"
  by (auto simp add: leaveNode_def Let_def intro!: frame_trans [OF frame_setp frame_setp])

lemma bindE_Inr: "bindE m f = Inr y \<Longrightarrow> \<exists>x. m = Inr x \<and> f x = Inr y"
  by (cases m) (simp_all add: bindE_def)

lemma withCursor_Inr: "withCursor st f = Inr y \<Longrightarrow> \<exists>p. node st = VRef p \<and> f p = Inr y"
  by (simp add: withCursor_def split: jsval.splits)

lemma popp_Inr:
  assumes "popp h a k = Inr (v, h')"
  shows "\<exists>xs. getp h a k = VArr xs \<and> a < length h \<and>
          v = (if xs = [] then VUndef else last xs) \<and> h' = setp h a k (VArr (butlast xs))"
proof -
  from assms obtain xs where xs: "getp h a k = VArr xs"
    by (cases "getp h a k") (simp_all add: popp_def)
  with assms have "v = (if xs = [] then VUndef else last xs)"
    and "h' = setp h a k (VArr (butlast xs))"
    by (simp_all add: popp_def)
  moreover from xs getp_valid [of h a k] have "a < length h"
    by simp
  ultimately show ?thesis
    using xs by blast
qed

lemma setParent_Inr:
  "setParent h v p = Inr h' \<Longrightarrow> \<exists>a. v = VRef a \<and> h' = setp h a ''parent'' (VRef p)"
  by (auto simp add: setParent_def split: jsval.splits)

lemma frame_setp_step: "frame h h1 \<Longrightarrow> k \<in> mutableKeys \<Longrightarrow> frame h (setp h1 a k v)"
  by (blast intro: frame_trans frame_setp)

lemma frame_append_step: "frame h h1 \<Longrightarrow> frame h (h1 @ obs)"
  by (blast intro: frame_trans frame_append)

lemmas frame_steps = frame_setp_step frame_append_step

lemma frame_pushLeaf:
  "pushLeaf tys ty start endp rest st = Inr st' \<Longrightarrow> frame (heap st) (heap st')"
  by (auto simp add: pushLeaf_def Let_def split: if_splits
        dest!: withCursor_Inr bindE_Inr pushp_Inr intro!: frame_steps)

lemma frame_leaveChecked:
  "leaveChecked ty ptys start endp st = Inr st' \<Longrightarrow> frame (heap st) (heap st')"
  by (auto simp add: leaveChecked_def split: if_splits
        dest!: withCursor_Inr bindE_Inr)

lemma frame_resolveAll: "resolveAll gs rs h = Inr h' \<Longrightarrow> frame h h'"
  using resolveAll_frame [of gs rs h h'] by (auto simp add: frame_def mutableKeys_def)

lemma frame_onPatternLeave:
  "onPatternLeave start endp st = Inr st' \<Longrightarrow> frame (heap st) (heap st')"
proof -
  assume "onPatternLeave start endp st = Inr st'"
  then obtain n h2 where
    h2: "h2 = setp (setp (heap st) n ''end'' (VNum endp)) n ''raw''
                (VStr (sliceStr (source st) start endp))"
    and run: "resolveAll (capturingGroups st) (backreferences st) h2 = Inr (heap st')"
    by (rule onPatternLeave_Inr)
  have "frame (heap st) h2"
    unfolding h2 by (intro frame_steps frame_refl) simp_all
  with frame_resolveAll [OF run] show ?thesis
    by (blast intro: frame_trans)
qed

lemma map_of_mkNode [simp]:
  "map_of (mkNode ty p s e r rest) ''type'' = Some (S ty)"
  "map_of (mkNode ty p s e r rest) ''parent'' = Some p"
  "map_of (mkNode ty p s e r rest) ''start'' = Some (VNum s)"
  "map_of (mkNode ty p s e r rest) ''end'' = Some (VNum e)"
  "map_of (mkNode ty p s e r rest) ''raw'' = Some (VStr r)"
  by (simp_all add: mkNode_def)

lemma creates_leaveNode [simp]: "creates ty st (leaveNode n start endp st)"
  using frame_leaveNode [of st n start endp]
  by (simp add: creates_def) (simp add: leaveNode_def Let_def)

lemma sameFields_leaveNode [simp]: "sameFields st (leaveNode n start endp st)"
  by (simp add: sameFields_def leaveNode_def Let_def)

lemma plain_pushLeaf:
  "pushLeaf tys ty start endp rest st = Inr st' \<Longrightarrow> creates ty st st' \<and> sameFields st st'"
  by (auto simp add: pushLeaf_def Let_def creates_def sameFields_def split: if_splits
        dest!: withCursor_Inr bindE_Inr pushp_Inr intro!: frame_steps)

lemma plain_leaveChecked:
  "leaveChecked ty ptys start endp st = Inr st' \<Longrightarrow> creates ty' st st' \<and> sameFields st st'"
  by (auto simp add: leaveChecked_def split: if_splits
        dest!: withCursor_Inr bindE_Inr)

lemma plain_onPatternLeave:
  assumes "onPatternLeave start endp st = Inr st'"
  shows "creates ty st st' \<and> sameFields st st'"
proof -
  from assms obtain n h2 where
    run: "resolveAll (capturingGroups st) (backreferences st) h2 = Inr (heap st')"
    and h2: "h2 = setp (setp (heap st) n ''end'' (VNum endp)) n ''raw''
                (VStr (sliceStr (source st) start endp))"
    by (rule onPatternLeave_Inr) blast
  from resolveAll_frame [OF run] h2 have "length (heap st') = length (heap st)"
    by simp
  moreover from assms have "sameFields st st'"
    by (auto simp add: onPatternLeave_def Let_def sameFields_def split: jsval.splits
          dest!: bindE_Inr)
  ultimately show ?thesis
    using frame_onPatternLeave [OF assms] by (simp add: creates_def)
qed

lemma plain_onAlternativeEnter:
  assumes "onAlternativeEnter start st = Inr st'"
  shows "creates ''Alternative'' st st' \<and> sameFields st st'"
  using assms
  by (auto simp add: onAlternativeEnter_def Let_def creates_def sameFields_def
        split: if_splits option.splits prod.splits
        dest!: withCursor_Inr bindE_Inr pushp_Inr popp_Inr setParent_Inr intro!: frame_steps)

lemma plain_onGroupEnter:
  assumes "onGroupEnter start st = Inr st'"
  shows "creates ''Group'' st st' \<and> sameFields st st'"
  using assms
  by (auto simp add: onGroupEnter_def Let_def creates_def sameFields_def
        split: if_splits option.splits prod.splits
        dest!: withCursor_Inr bindE_Inr pushp_Inr popp_Inr setParent_Inr intro!: frame_steps)

lemma plain_onModifiersEnter:
  assumes "onModifiersEnter start st = Inr st'"
  shows "creates ''Modifiers'' st st' \<and> sameFields st st'"
  using assms
  by (auto simp add: onModifiersEnter_def Let_def creates_def sameFields_def
        split: if_splits option.splits prod.splits
        dest!: withCursor_Inr bindE_Inr pushp_Inr popp_Inr setParent_Inr intro!: frame_steps)

lemma plain_modifierFlags:
  assumes "which \<in> mutableKeys" and "modifierFlags which start endp i m d st = Inr st'"
  shows "creates ''ModifierFlags'' st st' \<and> sameFields st st'"
  using assms
  by (auto simp add: modifierFlags_def Let_def creates_def sameFields_def
        split: if_splits option.splits prod.splits
        dest!: withCursor_Inr bindE_Inr pushp_Inr popp_Inr setParent_Inr intro!: frame_steps)

lemma plain_onQuantifier:
  assumes "onQuantifier start endp lo hi g st = Inr st'"
  shows "creates ''Quantifier'' st st' \<and> sameFields st st'"
  using assms
  by (auto simp add: onQuantifier_def Let_def creates_def sameFields_def
        split: if_splits option.splits prod.splits jsval.splits
        dest!: withCursor_Inr bindE_Inr pushp_Inr popp_Inr setParent_Inr intro!: frame_steps)

lemma plain_onLookaroundAssertionEnter:
  assumes "onLookaroundAssertionEnter start kind negate st = Inr st'"
  shows "creates ''Assertion'' st st' \<and> sameFields st st'"
  using assms
  by (auto simp add: onLookaroundAssertionEnter_def Let_def creates_def sameFields_def
        split: if_splits option.splits prod.splits
        dest!: withCursor_Inr bindE_Inr pushp_Inr popp_Inr setParent_Inr intro!: frame_steps)

lemma plain_onUnicodePropertyCharacterSet:
  assumes "onUnicodePropertyCharacterSet start endp kind key val negate strings st = Inr st'"
  shows "creates ''CharacterSet'' st st' \<and> sameFields st st'"
  using assms
  by (auto simp add: onUnicodePropertyCharacterSet_def Let_def creates_def sameFields_def
        split: if_splits option.splits prod.splits
        dest!: withCursor_Inr bindE_Inr pushp_Inr popp_Inr setParent_Inr intro!: frame_steps)

lemma plain_onCharacterClassEnter:
  assumes "onCharacterClassEnter start negate u st = Inr st'"
  shows "creates ''CharacterClass'' st st' \<and> sameFields st st'"
  using assms
  by (auto simp add: onCharacterClassEnter_def Let_def creates_def sameFields_def
        split: if_splits option.splits prod.splits
        dest!: withCursor_Inr bindE_Inr pushp_Inr popp_Inr setParent_Inr intro!: frame_steps)

lemma plain_onCharacterClassRange:
  assumes "onCharacterClassRange start endp st = Inr st'"
  shows "creates ''CharacterClassRange'' st st' \<and> sameFields st st'"
  using assms
  by (auto simp add: onCharacterClassRange_def Let_def creates_def sameFields_def
        split: if_splits option.splits prod.splits
        dest!: withCursor_Inr bindE_Inr pushp_Inr popp_Inr setParent_Inr intro!: frame_steps)

lemma plain_onClassStringDisjunctionEnter:
  assumes "onClassStringDisjunctionEnter start st = Inr st'"
  shows "creates ''ClassStringDisjunction'' st st' \<and> sameFields st st'"
  using assms
  by (auto simp add: onClassStringDisjunctionEnter_def Let_def creates_def sameFields_def
        split: if_splits option.splits prod.splits
        dest!: withCursor_Inr bindE_Inr pushp_Inr popp_Inr setParent_Inr intro!: frame_steps)

lemma plain_onStringAlternativeEnter:
  assumes "onStringAlternativeEnter start st = Inr st'"
  shows "creates ''StringAlternative'' st st' \<and> sameFields st st'"
  using assms
  by (auto simp add: onStringAlternativeEnter_def Let_def creates_def sameFields_def
        split: if_splits option.splits prod.splits
        dest!: withCursor_Inr bindE_Inr pushp_Inr popp_Inr setParent_Inr intro!: frame_steps)

lemma plain_onRegExpFlags:
  "onRegExpFlags s e g i m u y d hi v st = Inr st' \<Longrightarrow>
     creates ''Flags'' st st' \<and> sameFields st st'"
  by (auto simp add: onRegExpFlags_def creates_def sameFields_def frame_append)

lemma onPatternEnter_creates:
  "onPatternEnter start st = Inr st' \<Longrightarrow>
     creates ''Pattern'' st st' \<and> source st' = source st \<and>
     expressionBufferMap st' = expressionBufferMap st \<and>
     capturingGroups st' = [] \<and> backreferences st' = []"
  by (auto simp add: onPatternEnter_def creates_def frame_append)

lemma onCapturingGroupEnter_creates:
  assumes "onCapturingGroupEnter start name st = Inr st'"
  shows "creates ''CapturingGroup'' st st' \<and> source st' = source st \<and>
     expressionBufferMap st' = expressionBufferMap st \<and>
     backreferences st' = backreferences st \<and>
     capturingGroups st' = capturingGroups st @ [length (heap st)] \<and>
     length (heap st) < length (heap st') \<and>
     getp (heap st') (length (heap st)) ''name'' = name"
  using assms
  by (auto simp add: onCapturingGroupEnter_def Let_def creates_def mkNode_def
        split: if_splits
        dest!: withCursor_Inr bindE_Inr pushp_Inr intro!: frame_steps)

lemma onBackreference_creates:
  assumes "onBackreference start endp ref st = Inr st'"
  shows "creates ''Backreference'' st st' \<and> source st' = source st \<and>
     expressionBufferMap st' = expressionBufferMap st \<and>
     capturingGroups st' = capturingGroups st \<and>
     backreferences st' = backreferences st @ [length (heap st)] \<and>
     length (heap st) < length (heap st') \<and>
     getp (heap st') (length (heap st)) ''ref'' = ref"
  using assms
  by (auto simp add: onBackreference_def pushLeaf_def Let_def creates_def mkNode_def
        split: if_splits
        dest!: withCursor_Inr bindE_Inr pushp_Inr intro!: frame_steps)

lemma classSetOperation_creates:
  assumes "classSetOperation ty other start endp st = Inr st'"
  shows "creates ty st st' \<and> source st' = source st \<and>
     capturingGroups st' = capturingGroups st \<and> backreferences st' = backreferences st"
  using assms
  by (auto simp add: classSetOperation_def Let_def creates_def
        split: if_splits option.splits prod.splits
        dest!: withCursor_Inr bindE_Inr pushp_Inr popp_Inr setParent_Inr intro!: frame_steps)

lemma onCharacterClassLeave_creates:
  assumes "onCharacterClassLeave start endp st = Inr st'"
  shows "creates ''ExpressionCharacterClass'' st st' \<and> source st' = source st \<and>
     capturingGroups st' = capturingGroups st \<and> backreferences st' = backreferences st"
  using assms
  by (auto simp add: onCharacterClassLeave_def leaveNode_def Let_def creates_def
        split: if_splits option.splits prod.splits jsval.splits
        dest!: withCursor_Inr bindE_Inr pushp_Inr popp_Inr setParent_Inr intro!: frame_steps)

lemma plain_onAlternativeLeave:
  "onAlternativeLeave start endp st = Inr st' \<Longrightarrow> creates ty st st' \<and> sameFields st st'"
  by (auto simp add: onAlternativeLeave_def split: if_splits dest!: withCursor_Inr)

lemma plain_onStringAlternativeLeave:
  "onStringAlternativeLeave start endp st = Inr st' \<Longrightarrow>
     creates ty st st' \<and> sameFields st st'"
  by (auto simp add: onStringAlternativeLeave_def split: if_splits dest!: withCursor_Inr)

lemmas plain_handlers =
  plain_onRegExpFlags plain_onPatternLeave plain_onAlternativeEnter plain_onAlternativeLeave
  plain_onGroupEnter plain_leaveChecked plain_onModifiersEnter
  plain_modifierFlags [where which = "''add''", simplified]
  plain_modifierFlags [where which = "''remove''", simplified]
  plain_onQuantifier plain_onLookaroundAssertionEnter plain_pushLeaf
  plain_onUnicodePropertyCharacterSet plain_onCharacterClassEnter
  plain_onCharacterClassRange plain_onClassStringDisjunctionEnter
  plain_onStringAlternativeEnter plain_onStringAlternativeLeave

lemmas special_handlers =
  onPatternEnter_creates onCapturingGroupEnter_creates onBackreference_creates
  classSetOperation_creates onCharacterClassLeave_creates

lemmas handler_defs =
  onGroupLeave_def onModifiersLeave_def onAddModifiers_def onRemoveModifiers_def
  onCapturingGroupLeave_def onLookaroundAssertionLeave_def onEdgeAssertion_def
  onWordBoundaryAssertion_def onAnyCharacterSet_def onEscapeCharacterSet_def
  onCharacter_def onClassIntersection_def onClassSubtraction_def
  onClassStringDisjunctionLeave_def

lemma handle_creates: "handle ev st = Inr st' \<Longrightarrow> creates (nodeType ev) st st'"
  by (cases ev) (auto simp add: handler_defs dest!: plain_handlers special_handlers)

lemma handle_source: "handle ev st = Inr st' \<Longrightarrow> source st' = source st"
  by (cases ev)
    (auto simp add: handler_defs sameFields_def dest!: plain_handlers special_handlers)




subsection \<open>C3: every reference of a successful parse has a group\<close>

lemma frame_typed:
  "frame h h' \<Longrightarrow> getp h a ''type'' = S ty \<Longrightarrow> getp h' a ''type'' = S ty"
  using getp_valid [of h a "''type''"] by (simp add: frame_def)

lemma frame_old:
  "frame h h' \<Longrightarrow> a < length h \<Longrightarrow> k \<notin> mutableKeys \<Longrightarrow> getp h' a k = getp h a k"
  by (simp add: frame_def)


lemma reference_cases: "reference ev = [] \<or> (\<exists>n. reference ev = [n])"
  by (cases ev) simp_all




lemma run_frame: "run evs st = Inr st' \<Longrightarrow> frame (heap st) (heap st')"
proof (induction evs arbitrary: st)
  case Nil
  then show ?case by simp
next
  case (Cons ev evs)
  from Cons.prems obtain st1 where
    step: "handle ev st = Inr st1" and rest: "run evs st1 = Inr st'"
    by (auto dest!: bindE_Inr)
  from handle_creates [OF step] Cons.IH [OF rest] show ?case
    by (auto simp add: creates_def intro: frame_trans)
qed











subsection \<open>C6: intersection and subtraction are never mixed\<close>

lemma isClassSetOperand_frame:
  "frame h h' \<Longrightarrow> isClassSetOperand h v \<Longrightarrow> isClassSetOperand h' v"
  by (cases v) (auto simp add: isClassSetOperand_def field_def Let_def dest: frame_typed)

lemma operatorAt_frame: "frame h h' \<Longrightarrow> operatorAt h x \<Longrightarrow> operatorAt h' x"
  by (auto simp add: operatorAt_def dest: frame_typed)

lemma operandsOk_frame:
  assumes fr: "frame h h'" and a: "a < length h" and ok: "operandsOk h ty a"
  shows "operandsOk h' ty a"
proof -
  from ok obtain l where l: "getp h a ''left'' = VRef l" "l < a"
    "getp h l ''type'' = S ty \<or> isClassSetOperand h (VRef l)"
    "isClassSetOperand h (getp h a ''right'')"
    by (auto simp add: operandsOk_def)
  from fr a have same: "getp h' a ''left'' = getp h a ''left''"
    "getp h' a ''right'' = getp h a ''right''"
    by (simp_all add: frame_old)
  from l(3) have "getp h' l ''type'' = S ty \<or> isClassSetOperand h' (VRef l)"
    using frame_typed [OF fr] isClassSetOperand_frame [OF fr] by blast
  with l same isClassSetOperand_frame [OF fr l(4)] show ?thesis
    by (auto simp add: operandsOk_def)
qed

lemma classInv_old:
  assumes inv: "classInv st" and fr: "frame (heap st) (heap st')" and a: "a < length (heap st)"
  shows "(getp (heap st') a ''type'' = S ''ClassIntersection'' \<longrightarrow>
            operandsOk (heap st') ''ClassIntersection'' a) \<and>
         (getp (heap st') a ''type'' = S ''ClassSubtraction'' \<longrightarrow>
            operandsOk (heap st') ''ClassSubtraction'' a) \<and>
         (getp (heap st') a ''type'' = S ''ExpressionCharacterClass'' \<longrightarrow>
            (\<exists>x. getp (heap st') a ''expression'' = VRef x \<and> operatorAt (heap st') x))"
proof -
  from fr a have same: "getp (heap st') a ''type'' = getp (heap st) a ''type''"
    "getp (heap st') a ''expression'' = getp (heap st) a ''expression''"
    by (simp_all add: frame_old)
  from inv show ?thesis
    unfolding same classInv_def
    using operandsOk_frame [OF fr a] operatorAt_frame [OF fr] by blast
qed

lemma classInv_plain:
  assumes inv: "classInv st" and new: "creates ty st st'"
    and ty: "ty \<noteq> ''ClassIntersection''" "ty \<noteq> ''ClassSubtraction''"
      "ty \<noteq> ''ExpressionCharacterClass''"
    and buf: "expressionBufferMap st' = expressionBufferMap st"
  shows "classInv st'"
proof -
  from new have fr: "frame (heap st) (heap st')"
    by (simp add: creates_def)
  have "getp (heap st') a ''type'' \<noteq> S ''ClassIntersection'' \<and>
        getp (heap st') a ''type'' \<noteq> S ''ClassSubtraction'' \<and>
        getp (heap st') a ''type'' \<noteq> S ''ExpressionCharacterClass''"
    if "\<not> a < length (heap st)" for a
  proof (cases "a < length (heap st')")
    case True
    with that new have "getp (heap st') a ''type'' = S ty"
      by (simp add: creates_def)
    with ty show ?thesis
      by simp
  next
    case False
    then show ?thesis
      by (simp add: getp_def)
  qed
  with classInv_old [OF inv fr] have "\<forall>a.
      (getp (heap st') a ''type'' = S ''ClassIntersection'' \<longrightarrow>
         operandsOk (heap st') ''ClassIntersection'' a) \<and>
      (getp (heap st') a ''type'' = S ''ClassSubtraction'' \<longrightarrow>
         operandsOk (heap st') ''ClassSubtraction'' a) \<and>
      (getp (heap st') a ''type'' = S ''ExpressionCharacterClass'' \<longrightarrow>
         (\<exists>x. getp (heap st') a ''expression'' = VRef x \<and> operatorAt (heap st') x))"
    by blast
  moreover from inv have "\<forall>x \<in> snd ` set (expressionBufferMap st'). operatorAt (heap st') x"
    unfolding buf classInv_def using operatorAt_frame [OF fr] by blast
  ultimately show ?thesis
    unfolding classInv_def by blast
qed

lemma popp_frame:
  assumes "popp h a k = Inr (v, h')"
  shows "length h' = length h" and "k' \<noteq> k \<Longrightarrow> getp h' b k' = getp h b k'"
  using popp_Inr [OF assms] by auto

lemma isClassSetOperand_cong:
  "(\<And>a. getp h' a ''type'' = getp h a ''type'') \<Longrightarrow>
     isClassSetOperand h' v = isClassSetOperand h v"
  by (simp add: isClassSetOperand_def field_def split: jsval.splits)

lemma isClassSetOperand_VRef: "isClassSetOperand h v \<Longrightarrow> \<exists>a. v = VRef a"
  by (cases v) (simp_all add: isClassSetOperand_def field_def)

lemma classSetOperation_Inr:
  assumes "classSetOperation ty other start endp st = Inr st'"
  obtains p right h1 left h2 h4 where "node st = VRef p"
    and "popp (heap st) p ''elements'' = Inr (right, h1)"
    and "(case map_of (expressionBufferMap st) p of
            Some buffered \<Rightarrow> Inr (VRef buffered, h1)
          | None \<Rightarrow> popp h1 p ''elements'') = Inr (left, h2)"
    and "field h2 left ''type'' \<noteq> S other"
    and "field h2 left ''type'' = S ty \<or> isClassSetOperand h2 left"
    and "isClassSetOperand h2 right"
    and "setParent
           (h2 @ [mkNode ty (VRef p) start endp (sliceStr (source st) start endp)
                    [(''left'', left), (''right'', right)]]) left (length h2) = Inr h4"
    and "setParent h4 right (length h2) = Inr (heap st')"
    and "expressionBufferMap st' = AList.update p (length h2) (expressionBufferMap st)"
  using assms
  by (auto simp add: classSetOperation_def Let_def split: if_splits prod.splits
        dest!: withCursor_Inr bindE_Inr)

lemma classSetOperation_node:
  assumes "classSetOperation ty other start endp st = Inr st'"
  shows "\<exists>p l r. node st = VRef p \<and>
      getp (heap st') (length (heap st)) ''left'' = VRef l \<and>
      getp (heap st) l ''type'' \<noteq> S other \<and>
      (getp (heap st) l ''type'' = S ty \<or> isClassSetOperand (heap st) (VRef l)) \<and>
      getp (heap st') (length (heap st)) ''right'' = r \<and> isClassSetOperand (heap st) r \<and>
      expressionBufferMap st' = AList.update p (length (heap st)) (expressionBufferMap st) \<and>
      length (heap st') = Suc (length (heap st))"
proof -
  from assms obtain p right h1 left h2 h4 where p: "node st = VRef p"
    and pop1: "popp (heap st) p ''elements'' = Inr (right, h1)"
    and pop2: "(case map_of (expressionBufferMap st) p of
                  Some buffered \<Rightarrow> Inr (VRef buffered, h1)
                | None \<Rightarrow> popp h1 p ''elements'') = Inr (left, h2)"
    and other: "field h2 left ''type'' \<noteq> S other"
    and same: "field h2 left ''type'' = S ty \<or> isClassSetOperand h2 left"
    and right: "isClassSetOperand h2 right"
    and set1: "setParent
           (h2 @ [mkNode ty (VRef p) start endp (sliceStr (source st) start endp)
                    [(''left'', left), (''right'', right)]]) left (length h2) = Inr h4"
    and set2: "setParent h4 right (length h2) = Inr (heap st')"
    and buf: "expressionBufferMap st' = AList.update p (length h2) (expressionBufferMap st)"
    by (rule classSetOperation_Inr)
  have h2: "length h2 = length (heap st)"
    "\<And>b k. k \<noteq> ''elements'' \<Longrightarrow> getp h2 b k = getp (heap st) b k"
    using pop2 popp_frame [OF pop1] popp_frame [of h1 p "''elements''" left h2]
    by (auto split: option.splits)
  from set1 obtain l where l: "left = VRef l"
    by (auto dest: setParent_Inr)
  have types: "isClassSetOperand h2 v = isClassSetOperand (heap st) v" for v
    by (rule isClassSetOperand_cong) (simp add: h2)
  from set1 set2 obtain r where "heap st' =
      setp (setp (h2 @ [mkNode ty (VRef p) start endp (sliceStr (source st) start endp)
                          [(''left'', left), (''right'', right)]])
              l ''parent'' (VRef (length h2))) r ''parent'' (VRef (length h2))"
    by (auto simp add: l dest!: setParent_Inr)
  then have new: "getp (heap st') (length (heap st)) ''left'' = left"
    "getp (heap st') (length (heap st)) ''right'' = right"
    "length (heap st') = Suc (length (heap st))"
    by (simp_all add: h2(1) [symmetric] mkNode_def)
  from other same right show ?thesis
    by (simp add: p l new buf h2 types field_def)
qed

lemma onCharacterClassLeave_cases:
  assumes "onCharacterClassLeave start endp st = Inr st'"
  obtains (plain) n where "st' = leaveNode n start endp st"
  | (retyped) n x where "map_of (expressionBufferMap st) n = Some x"
      and "expressionBufferMap st' = AList.delete n (expressionBufferMap st)"
      and "getp (heap st') (length (heap st)) ''expression'' = VRef x"
      and "length (heap st') = Suc (length (heap st))"
proof -
  from assms obtain n where n: "node st = VRef n"
    by (auto simp add: onCharacterClassLeave_def dest!: withCursor_Inr)
  show thesis
  proof (cases "map_of (expressionBufferMap st) n")
    case None
    with assms n have "st' = leaveNode n start endp st"
      by (auto simp add: onCharacterClassLeave_def withCursor_def Let_def split: if_splits
            dest!: bindE_Inr)
    then show thesis
      by (rule plain)
  next
    case (Some x)
    with assms n have "expressionBufferMap st' = AList.delete n (expressionBufferMap st) \<and>
        getp (heap st') (length (heap st)) ''expression'' = VRef x \<and>
        length (heap st') = Suc (length (heap st))"
      by (auto simp add: onCharacterClassLeave_def withCursor_def leaveNode_def Let_def
            split: if_splits jsval.splits prod.splits dest!: bindE_Inr pushp_Inr popp_Inr)
    with Some show thesis
      by (blast intro: retyped)
  qed
qed

lemma snd_update_subset: "snd ` set (AList.update k v al) \<subseteq> insert v (snd ` set al)"
  by (induction al) auto

lemma snd_delete_subset: "snd ` set (AList.delete k al) \<subseteq> snd ` set al"
  by (auto simp add: AList.delete_eq)

lemma classInv_operation:
  assumes inv: "classInv st"
    and step: "classSetOperation ty other start endp st = Inr st'"
    and ty: "ty = ''ClassIntersection'' \<or> ty = ''ClassSubtraction''"
  shows "classInv st'"
proof -
  let ?h = "heap st" and ?h' = "heap st'" and ?a = "length (heap st)"
  from classSetOperation_creates [OF step] have fr: "frame ?h ?h'"
    and new: "\<And>a. ?a \<le> a \<Longrightarrow> a < length ?h' \<Longrightarrow> getp ?h' a ''type'' = S ty"
    by (simp_all add: creates_def)
  from classSetOperation_node [OF step] obtain p l r where
    left: "getp ?h' ?a ''left'' = VRef l"
    and l: "getp ?h l ''type'' = S ty \<or> isClassSetOperand ?h (VRef l)"
    and right: "getp ?h' ?a ''right'' = r" "isClassSetOperand ?h r"
    and buf: "expressionBufferMap st' = AList.update p ?a (expressionBufferMap st)"
    and len: "length ?h' = Suc ?a"
    by blast
  from l have "getp ?h l ''type'' \<noteq> VUndef"
    by (auto simp add: isClassSetOperand_def field_def Let_def)
  with getp_valid [of ?h l "''type''"] have "l < ?a"
    by simp
  moreover from l have "getp ?h' l ''type'' = S ty \<or> isClassSetOperand ?h' (VRef l)"
    using frame_typed [OF fr] isClassSetOperand_frame [OF fr] by blast
  ultimately have ok: "operandsOk ?h' ty ?a"
    using left right isClassSetOperand_frame [OF fr right(2)] by (auto simp add: operandsOk_def)
  from new [of ?a] len have type: "getp ?h' ?a ''type'' = S ty"
    by simp
  have "(getp ?h' a ''type'' = S ''ClassIntersection'' \<longrightarrow>
           operandsOk ?h' ''ClassIntersection'' a) \<and>
        (getp ?h' a ''type'' = S ''ClassSubtraction'' \<longrightarrow>
           operandsOk ?h' ''ClassSubtraction'' a) \<and>
        (getp ?h' a ''type'' = S ''ExpressionCharacterClass'' \<longrightarrow>
           (\<exists>x. getp ?h' a ''expression'' = VRef x \<and> operatorAt ?h' x))" for a
  proof -
    consider "a < ?a" | "a = ?a" | "length ?h' \<le> a"
      using len by linarith
    then show ?thesis
    proof cases
      case 1
      then show ?thesis
        by (rule classInv_old [OF inv fr])
    next
      case 2
      with ok type ty show ?thesis
        by auto
    next
      case 3
      then show ?thesis
        by (simp add: getp_def)
    qed
  qed
  moreover have "operatorAt ?h' x" if "x \<in> snd ` set (expressionBufferMap st')" for x
  proof (cases "x = ?a")
    case True
    with type ty show ?thesis
      by (auto simp add: operatorAt_def)
  next
    case False
    with that snd_update_subset [of p ?a "expressionBufferMap st"]
    have "x \<in> snd ` set (expressionBufferMap st)"
      unfolding buf by blast
    with inv show ?thesis
      using operatorAt_frame [OF fr] by (auto simp add: classInv_def)
  qed
  ultimately show ?thesis
    unfolding classInv_def by blast
qed

lemma classInv_leave:
  assumes inv: "classInv st" and step: "onCharacterClassLeave start endp st = Inr st'"
  shows "classInv st'"
  using step
proof (cases rule: onCharacterClassLeave_cases)
  case (plain n)
  have "creates ''Flags'' st st'" "expressionBufferMap st' = expressionBufferMap st"
    using sameFields_leaveNode [of st n start endp] by (simp_all add: plain sameFields_def)
  from classInv_plain [OF inv this(1) _ _ _ this(2)] show ?thesis
    by simp
next
  case (retyped n x)
  let ?h = "heap st" and ?h' = "heap st'" and ?a = "length (heap st)"
  from onCharacterClassLeave_creates [OF step] have fr: "frame ?h ?h'"
    and new: "\<And>a. ?a \<le> a \<Longrightarrow> a < length ?h' \<Longrightarrow>
                getp ?h' a ''type'' = S ''ExpressionCharacterClass''"
    by (simp_all add: creates_def)
  from retyped(1) have "x \<in> snd ` set (expressionBufferMap st)"
    by (force dest: map_of_SomeD)
  with inv have x: "operatorAt ?h' x"
    using operatorAt_frame [OF fr] by (auto simp add: classInv_def)
  from new [of ?a] retyped(4) have type: "getp ?h' ?a ''type'' = S ''ExpressionCharacterClass''"
    by simp
  have "(getp ?h' a ''type'' = S ''ClassIntersection'' \<longrightarrow>
           operandsOk ?h' ''ClassIntersection'' a) \<and>
        (getp ?h' a ''type'' = S ''ClassSubtraction'' \<longrightarrow>
           operandsOk ?h' ''ClassSubtraction'' a) \<and>
        (getp ?h' a ''type'' = S ''ExpressionCharacterClass'' \<longrightarrow>
           (\<exists>x. getp ?h' a ''expression'' = VRef x \<and> operatorAt ?h' x))" for a
  proof -
    consider "a < ?a" | "a = ?a" | "length ?h' \<le> a"
      using retyped(4) by linarith
    then show ?thesis
    proof cases
      case 1
      then show ?thesis
        by (rule classInv_old [OF inv fr])
    next
      case 2
      with type x retyped(3) show ?thesis
        by simp
    next
      case 3
      then show ?thesis
        by (simp add: getp_def)
    qed
  qed
  moreover have "operatorAt ?h' y" if "y \<in> snd ` set (expressionBufferMap st')" for y
  proof -
    from that snd_delete_subset [of n "expressionBufferMap st"]
    have "y \<in> snd ` set (expressionBufferMap st)"
      unfolding retyped(2) by blast
    with inv show ?thesis
      using operatorAt_frame [OF fr] by (auto simp add: classInv_def)
  qed
  ultimately show ?thesis
    unfolding classInv_def by blast
qed

lemma handle_buffer:
  assumes "handle ev st = Inr st'"
    and "nodeType ev \<noteq> ''ClassIntersection''" "nodeType ev \<noteq> ''ClassSubtraction''"
      "nodeType ev \<noteq> ''ExpressionCharacterClass''"
  shows "expressionBufferMap st' = expressionBufferMap st"
  using assms
  by (cases ev)
    (auto simp add: handler_defs sameFields_def dest!: plain_handlers special_handlers)

lemma handle_classInv:
  assumes inv: "classInv st" and step: "handle ev st = Inr st'"
  shows "classInv st'"
proof (cases "nodeType ev = ''ClassIntersection'' \<or> nodeType ev = ''ClassSubtraction'' \<or>
    nodeType ev = ''ExpressionCharacterClass''")
  case False
  with classInv_plain [OF inv handle_creates [OF step]] handle_buffer [OF step]
  show ?thesis
    by simp
next
  case True
  then consider s e where "ev = ClassIntersection s e" | s e where "ev = ClassSubtraction s e"
    | s e where "ev = CharacterClassLeave s e"
    by (cases ev) simp_all
  then show ?thesis
  proof cases
    case 1
    with step classInv_operation [OF inv] show ?thesis
      by (simp add: onClassIntersection_def)
  next
    case 2
    with step classInv_operation [OF inv] show ?thesis
      by (simp add: onClassSubtraction_def)
  next
    case 3
    with step classInv_leave [OF inv] show ?thesis
      by simp
  qed
qed

lemma run_classInv: "run evs st = Inr st' \<Longrightarrow> classInv st \<Longrightarrow> classInv st'"
proof (induction evs arbitrary: st)
  case Nil
  then show ?case by simp
next
  case (Cons ev evs)
  from Cons.prems(1) obtain st1 where
    step: "handle ev st = Inr st1" and rest: "run evs st1 = Inr st'"
    by (auto dest!: bindE_Inr)
  from Cons.IH [OF rest handle_classInv [OF Cons.prems(2) step]] show ?case .
qed

lemma chain_mono: "chain n h ty v \<Longrightarrow> n \<le> m \<Longrightarrow> chain m h ty v"
proof (induction n arbitrary: m v)
  case 0
  then show ?case by simp
next
  case (Suc n)
  then obtain k where m: "m = Suc k" "n \<le> k"
    by (cases m) simp_all
  with Suc.prems(1) Suc.IH [of "field h v ''left''" k] show ?case
    by auto
qed

lemma operandsOk_chain:
  assumes ok: "\<And>a. getp h a ''type'' = S ty \<Longrightarrow> operandsOk h ty a"
  shows "getp h a ''type'' = S ty \<Longrightarrow> chain (Suc a) h ty (VRef a)"
proof (induction a rule: less_induct)
  case (less a)
  from ok [OF less.prems] obtain l where l: "getp h a ''left'' = VRef l" "l < a"
    "getp h l ''type'' = S ty \<or> isClassSetOperand h (VRef l)"
    "isClassSetOperand h (getp h a ''right'')"
    by (auto simp add: operandsOk_def)
  have "isClassSetOperand h (VRef l) \<or> chain a h ty (VRef l)"
  proof (cases "isClassSetOperand h (VRef l)")
    case True
    then show ?thesis ..
  next
    case False
    with l have "getp h l ''type'' = S ty"
      by simp
    from less.IH [OF l(2) this] have "chain (Suc l) h ty (VRef l)" .
    from chain_mono [OF this] l(2) have "chain a h ty (VRef l)"
      by simp
    then show ?thesis ..
  qed
  with less.prems l show ?case
    by (simp add: field_def)
qed

lemma classInv_homogeneous:
  assumes inv: "classInv st"
    and a: "getp (heap st) a ''type'' = S ''ExpressionCharacterClass''"
  shows "homogeneousChain (heap st) (getp (heap st) a ''expression'')"
proof -
  let ?h = "heap st"
  from inv a obtain x where x: "getp ?h a ''expression'' = VRef x" "operatorAt ?h x"
    by (auto simp add: classInv_def)
  from x(2) getp_valid [of ?h x "''type''"] have len: "Suc x \<le> length ?h"
    by (auto simp add: operatorAt_def)
  from inv have ok: "\<And>a. getp ?h a ''type'' = S ''ClassIntersection'' \<Longrightarrow>
      operandsOk ?h ''ClassIntersection'' a"
    "\<And>a. getp ?h a ''type'' = S ''ClassSubtraction'' \<Longrightarrow>
      operandsOk ?h ''ClassSubtraction'' a"
    by (simp_all add: classInv_def)
  from x(2) operandsOk_chain [of ?h, OF ok(1)] operandsOk_chain [of ?h, OF ok(2)]
  have "chain (Suc x) ?h ''ClassIntersection'' (VRef x) \<or>
        chain (Suc x) ?h ''ClassSubtraction'' (VRef x)"
    unfolding operatorAt_def by blast
  with len show ?thesis
    unfolding homogeneousChain_def x(1) by (blast intro: chain_mono)
qed

lemma classInv_newState: "classInv ((newState strictOpt version heap0)\<lparr>source := src\<rparr>)"
  by (simp add: classInv_def newState_def heap0_def getp_def nth_Cons split: nat.splits)

text \<open>
  C6. In a state whose current class has a buffered operator node, \<open>onClassIntersection\<close>
  throws when that node is a ClassSubtraction, and \<open>onClassSubtraction\<close> throws when it
  is a ClassIntersection. And whatever calls a parse makes: when the assembler has
  accepted them all, the expression of every ExpressionCharacterClass node is a chain of
  ClassIntersection nodes only or of ClassSubtraction nodes only.
\<close>

theorem class_operators_are_never_mixed:
  "(node st = VRef p \<longrightarrow> getp (heap st) p ''elements'' = VArr els \<longrightarrow>
      map_of (expressionBufferMap st) p = Some b \<longrightarrow>
      (getp (heap st) b ''type'' = S ''ClassSubtraction'' \<longrightarrow>
         onClassIntersection start endp st = Inl UnknownError) \<and>
      (getp (heap st) b ''type'' = S ''ClassIntersection'' \<longrightarrow>
         onClassSubtraction start endp st = Inl UnknownError)) \<and>
   (\<forall>st' a. assemble src evs = Inr st' \<longrightarrow>
      getp (heap st') a ''type'' = S ''ExpressionCharacterClass'' \<longrightarrow>
      homogeneousChain (heap st') (getp (heap st') a ''expression''))"
proof (intro conjI allI impI)
  assume "node st = VRef p" "getp (heap st) p ''elements'' = VArr els"
    "map_of (expressionBufferMap st) p = Some b"
    "getp (heap st) b ''type'' = S ''ClassSubtraction''"
  then show "onClassIntersection start endp st = Inl UnknownError"
    by (simp add: onClassIntersection_def classSetOperation_def withCursor_def popp_def
          bindE_def field_def Let_def)
next
  assume "node st = VRef p" "getp (heap st) p ''elements'' = VArr els"
    "map_of (expressionBufferMap st) p = Some b"
    "getp (heap st) b ''type'' = S ''ClassIntersection''"
  then show "onClassSubtraction start endp st = Inl UnknownError"
    by (simp add: onClassSubtraction_def classSetOperation_def withCursor_def popp_def
          bindE_def field_def Let_def)
next
  fix st' a
  assume ok: "assemble src evs = Inr st'"
    and a: "getp (heap st') a ''type'' = S ''ExpressionCharacterClass''"
  from ok have "classInv st'"
    unfolding assemble_def by (rule run_classInv) (rule classInv_newState)
  then show "homogeneousChain (heap st') (getp (heap st') a ''expression'')"
    using a by (rule classInv_homogeneous)
qed

text \<open>
  The theorem at \<open>[a&&b--c]\<close>, where the class is object 5 and the buffered intersection
  object 8, and at \<open>[a&&b]\<close>, where the ExpressionCharacterClass is object 9.
\<close>

theorem class_operators_are_never_mixed_witness:
  "onClassSubtraction 1 8 mixedState = Inl UnknownError \<and>
   getp (heap (stateOf (assemble (ustr ''[a&&b]'') intersectionEvents))) 9 ''type'' =
     S ''ExpressionCharacterClass'' \<and>
   homogeneousChain (heap (stateOf (assemble (ustr ''[a&&b]'') intersectionEvents))) (VRef 8)"
proof -
  let ?st' = "stateOf (assemble (ustr ''[a&&b]'') intersectionEvents)"
  have mixed: "node mixedState = VRef 5"
    "getp (heap mixedState) 5 ''elements'' = VArr [VRef 9]"
    "map_of (expressionBufferMap mixedState) 5 = Some 8"
    "getp (heap mixedState) 8 ''type'' = S ''ClassIntersection''"
    by code_simp+
  have ok: "assemble (ustr ''[a&&b]'') intersectionEvents = Inr ?st'"
    by code_simp
  have node: "getp (heap ?st') 9 ''type'' = S ''ExpressionCharacterClass''"
    "getp (heap ?st') 9 ''expression'' = VRef 8"
    by code_simp+
  note inst = class_operators_are_never_mixed
    [where st = mixedState and p = 5 and els = "[VRef 9]" and b = 8 and start = 1
       and endp = 8 and src = "ustr ''[a&&b]''" and evs = intersectionEvents]
  from inst [THEN conjunct1, rule_format, OF mixed(1-3), THEN conjunct2, rule_format, OF mixed(4)]
    inst [THEN conjunct2, rule_format, OF ok node(1)] node
  show ?thesis
    by simp
qed

subsection \<open>C7: the raw text of a node\<close>

lemma sliceStr_empty [simp]: "sliceStr src s s = []"
  by (simp add: sliceStr_def Let_def)

lemma adds_pushLeaf:
  "pushLeaf tys ty start endp rest st = Inr st' \<Longrightarrow> adds st st'"
  by (auto simp add: pushLeaf_def Let_def adds_def nodeRaw_def split: if_splits
        dest!: withCursor_Inr bindE_Inr pushp_Inr)

lemma adds_onRegExpFlags:
  "onRegExpFlags s e g i m u y d hi v st = Inr st' \<Longrightarrow> adds st st'"
  by (auto simp add: onRegExpFlags_def adds_def nodeRaw_def)

lemma adds_onPatternEnter: "onPatternEnter start st = Inr st' \<Longrightarrow> adds st st'"
  by (auto simp add: onPatternEnter_def adds_def nodeRaw_def)

lemma adds_onBackreference: "onBackreference start endp ref st = Inr st' \<Longrightarrow> adds st st'"
  by (auto simp add: onBackreference_def adds_def dest!: bindE_Inr adds_pushLeaf)

lemma adds_onAlternativeEnter:
  assumes "onAlternativeEnter start st = Inr st'"
  shows "adds st st'"
  using assms
  by (auto simp add: onAlternativeEnter_def Let_def adds_def nodeRaw_def
        split: if_splits option.splits prod.splits
        dest!: withCursor_Inr bindE_Inr pushp_Inr popp_Inr setParent_Inr)

lemma adds_onGroupEnter:
  assumes "onGroupEnter start st = Inr st'"
  shows "adds st st'"
  using assms
  by (auto simp add: onGroupEnter_def Let_def adds_def nodeRaw_def
        split: if_splits option.splits prod.splits
        dest!: withCursor_Inr bindE_Inr pushp_Inr popp_Inr setParent_Inr)

lemma adds_onModifiersEnter:
  assumes "onModifiersEnter start st = Inr st'"
  shows "adds st st'"
  using assms
  by (auto simp add: onModifiersEnter_def Let_def adds_def nodeRaw_def
        split: if_splits option.splits prod.splits
        dest!: withCursor_Inr bindE_Inr pushp_Inr popp_Inr setParent_Inr)

lemma adds_onAddModifiers:
  assumes "onAddModifiers start endp i m d st = Inr st'"
  shows "adds st st'"
  using assms
  by (auto simp add: onAddModifiers_def modifierFlags_def Let_def adds_def nodeRaw_def
        split: if_splits option.splits prod.splits
        dest!: withCursor_Inr bindE_Inr pushp_Inr popp_Inr setParent_Inr)

lemma adds_onRemoveModifiers:
  assumes "onRemoveModifiers start endp i m d st = Inr st'"
  shows "adds st st'"
  using assms
  by (auto simp add: onRemoveModifiers_def modifierFlags_def Let_def adds_def nodeRaw_def
        split: if_splits option.splits prod.splits
        dest!: withCursor_Inr bindE_Inr pushp_Inr popp_Inr setParent_Inr)

lemma adds_onCapturingGroupEnter:
  assumes "onCapturingGroupEnter start name st = Inr st'"
  shows "adds st st'"
  using assms
  by (auto simp add: onCapturingGroupEnter_def Let_def adds_def nodeRaw_def
        split: if_splits option.splits prod.splits
        dest!: withCursor_Inr bindE_Inr pushp_Inr popp_Inr setParent_Inr)

lemma adds_onQuantifier:
  assumes "onQuantifier start endp lo hi g st = Inr st'"
  shows "adds st st'"
  using assms
  by (auto simp add: onQuantifier_def Let_def adds_def nodeRaw_def
        split: if_splits option.splits prod.splits jsval.splits
        dest!: withCursor_Inr bindE_Inr pushp_Inr popp_Inr setParent_Inr)

lemma adds_onLookaroundAssertionEnter:
  assumes "onLookaroundAssertionEnter start kind negate st = Inr st'"
  shows "adds st st'"
  using assms
  by (auto simp add: onLookaroundAssertionEnter_def Let_def adds_def nodeRaw_def
        split: if_splits option.splits prod.splits
        dest!: withCursor_Inr bindE_Inr pushp_Inr popp_Inr setParent_Inr)

lemma adds_onUnicodePropertyCharacterSet:
  assumes "onUnicodePropertyCharacterSet start endp kind key val negate strings st = Inr st'"
  shows "adds st st'"
  using assms
  by (auto simp add: onUnicodePropertyCharacterSet_def Let_def adds_def nodeRaw_def
        split: if_splits option.splits prod.splits
        dest!: withCursor_Inr bindE_Inr pushp_Inr popp_Inr setParent_Inr)

lemma adds_onCharacterClassEnter:
  assumes "onCharacterClassEnter start negate u st = Inr st'"
  shows "adds st st'"
  using assms
  by (auto simp add: onCharacterClassEnter_def Let_def adds_def nodeRaw_def
        split: if_splits option.splits prod.splits
        dest!: withCursor_Inr bindE_Inr pushp_Inr popp_Inr setParent_Inr)

lemma adds_onCharacterClassRange:
  assumes "onCharacterClassRange start endp st = Inr st'"
  shows "adds st st'"
  using assms
  by (auto simp add: onCharacterClassRange_def Let_def adds_def nodeRaw_def
        split: if_splits option.splits prod.splits
        dest!: withCursor_Inr bindE_Inr pushp_Inr popp_Inr setParent_Inr)

lemma adds_classSetOperation:
  assumes "classSetOperation ty other start endp st = Inr st'"
  shows "adds st st'"
  using assms
  by (auto simp add: classSetOperation_def Let_def adds_def nodeRaw_def
        split: if_splits option.splits prod.splits
        dest!: withCursor_Inr bindE_Inr pushp_Inr popp_Inr setParent_Inr)

lemma adds_onClassStringDisjunctionEnter:
  assumes "onClassStringDisjunctionEnter start st = Inr st'"
  shows "adds st st'"
  using assms
  by (auto simp add: onClassStringDisjunctionEnter_def Let_def adds_def nodeRaw_def
        split: if_splits option.splits prod.splits
        dest!: withCursor_Inr bindE_Inr pushp_Inr popp_Inr setParent_Inr)

lemma adds_onStringAlternativeEnter:
  assumes "onStringAlternativeEnter start st = Inr st'"
  shows "adds st st'"
  using assms
  by (auto simp add: onStringAlternativeEnter_def Let_def adds_def nodeRaw_def
        split: if_splits option.splits prod.splits
        dest!: withCursor_Inr bindE_Inr pushp_Inr popp_Inr setParent_Inr)

lemma rawFrom_adds:
  assumes inv: "rawFrom (source st) base (heap st)" and step: "adds st st'"
  shows "rawFrom (source st) base (heap st')"
  unfolding rawFrom_def
proof (intro allI impI)
  fix a
  assume a: "base \<le> a" "getp (heap st') a ''type'' \<noteq> VUndef"
  show "nodeRaw (source st) (heap st') a"
  proof (cases "a < length (heap st)")
    case True
    with step a inv show ?thesis
      by (simp add: adds_def rawFrom_def nodeRaw_def)
  next
    case False
    with step a getp_valid [of "heap st'" a "''type''"] show ?thesis
      by (simp add: adds_def)
  qed
qed

lemma rawFrom_cong:
  assumes "rawFrom src base h"
    and "\<And>a. getp h' a ''type'' = getp h a ''type''"
      "\<And>a. getp h' a ''start'' = getp h a ''start''"
      "\<And>a. getp h' a ''end'' = getp h a ''end''" "\<And>a. getp h' a ''raw'' = getp h a ''raw''"
  shows "rawFrom src base h'"
  using assms by (simp add: rawFrom_def nodeRaw_def)

lemma rawFrom_leaveNode:
  assumes inv: "rawFrom (source st) base (heap st)"
    and start: "getp (heap st) n ''start'' = VNum start"
  shows "rawFrom (source st) base (heap (leaveNode n start endp st))"
  unfolding rawFrom_def
proof (intro allI impI)
  fix a
  assume a: "base \<le> a" "getp (heap (leaveNode n start endp st)) a ''type'' \<noteq> VUndef"
  show "nodeRaw (source st) (heap (leaveNode n start endp st)) a"
  proof (cases "a = n")
    case True
    with start getp_valid [of "heap st" n "''start''"] show ?thesis
      by (simp add: leaveNode_def Let_def nodeRaw_def)
  next
    case False
    with a inv show ?thesis
      by (simp add: leaveNode_def Let_def nodeRaw_def rawFrom_def)
  qed
qed

lemma source_leaveNode [simp]: "source (leaveNode n start endp st) = source st"
  by (simp add: leaveNode_def Let_def)

lemma rawFrom_leaveChecked:
  assumes "rawFrom (source st) base (heap st)"
    and "field (heap st) (node st) ''start'' = VNum start"
    and "leaveChecked ty ptys start endp st = Inr st'"
  shows "rawFrom (source st) base (heap st')"
  using assms
  by (auto simp add: leaveChecked_def field_def rawFrom_leaveNode split: if_splits
        dest!: withCursor_Inr bindE_Inr)

lemma rawFrom_onAlternativeLeave:
  assumes "rawFrom (source st) base (heap st)"
    and "field (heap st) (node st) ''start'' = VNum start"
    and "onAlternativeLeave start endp st = Inr st'"
  shows "rawFrom (source st) base (heap st')"
  using assms
  by (auto simp add: onAlternativeLeave_def field_def rawFrom_leaveNode split: if_splits
        dest!: withCursor_Inr)

lemma rawFrom_onStringAlternativeLeave:
  assumes "rawFrom (source st) base (heap st)"
    and "field (heap st) (node st) ''start'' = VNum start"
    and "onStringAlternativeLeave start endp st = Inr st'"
  shows "rawFrom (source st) base (heap st')"
  using assms
  by (auto simp add: onStringAlternativeLeave_def field_def rawFrom_leaveNode
        split: if_splits dest!: withCursor_Inr)

lemma rawFrom_onPatternLeave:
  assumes inv: "rawFrom (source st) base (heap st)"
    and start: "field (heap st) (node st) ''start'' = VNum start"
    and step: "onPatternLeave start endp st = Inr st'"
  shows "rawFrom (source st) base (heap st')"
proof -
  from step obtain n h2 where n: "node st = VRef n"
    and h2: "h2 = setp (setp (heap st) n ''end'' (VNum endp)) n ''raw''
                    (VStr (sliceStr (source st) start endp))"
    and run: "resolveAll (capturingGroups st) (backreferences st) h2 = Inr (heap st')"
    by (rule onPatternLeave_Inr)
  from start n have "getp (heap st) n ''start'' = VNum start"
    by (simp add: field_def)
  from rawFrom_leaveNode [OF inv this, of endp] have "rawFrom (source st) base h2"
    by (simp add: leaveNode_def Let_def h2)
  then show ?thesis
    by (rule rawFrom_cong) (simp_all add: resolveAll_frame [OF run])
qed

lemma case_VRef_Inr:
  "case_jsval (Inl e1) (Inl e2) (\<lambda>b. Inl e3) (\<lambda>n. Inl e4) (Inl e5) (Inl e6) (\<lambda>s. Inl e7) f
     (\<lambda>xs. Inl e8) v = Inr y \<Longrightarrow> \<exists>a. v = VRef a \<and> f a = Inr y"
  by (cases v) simp_all

lemma case_VArr_Inr:
  "case_jsval (Inl e1) (Inl e2) (\<lambda>b. Inl e3) (\<lambda>n. Inl e4) (Inl e5) (Inl e6) (\<lambda>s. Inl e7)
     (\<lambda>a. Inl e8) f v = Inr y \<Longrightarrow> \<exists>xs. v = VArr xs \<and> f xs = Inr y"
  by (cases v) simp_all

lemma adds_onCharacterClassLeave:
  assumes "onCharacterClassLeave start endp st = Inr st'"
    and "node st = VRef n" and "getp (heap st) n ''start'' = VNum start"
  shows "adds (leaveNode n start endp st) st'"
  using assms getp_valid [of "heap st" n "''start''"]
  by (auto simp add: onCharacterClassLeave_def withCursor_def leaveNode_def Let_def adds_def
        nodeRaw_def
        split: if_splits option.splits prod.splits
        dest!: bindE_Inr case_VArr_Inr case_VRef_Inr pushp_Inr popp_Inr)

lemma rawFrom_onCharacterClassLeave:
  assumes inv: "rawFrom (source st) base (heap st)"
    and start: "field (heap st) (node st) ''start'' = VNum start"
    and step: "onCharacterClassLeave start endp st = Inr st'"
  shows "rawFrom (source st) base (heap st')"
proof -
  from step obtain n where n: "node st = VRef n"
    by (auto simp add: onCharacterClassLeave_def dest!: withCursor_Inr)
  with start have s: "getp (heap st) n ''start'' = VNum start"
    by (simp add: field_def)
  from rawFrom_adds [OF _ adds_onCharacterClassLeave [OF step n s]]
    rawFrom_leaveNode [OF inv s, of endp]
  show ?thesis
    by simp
qed

lemmas adds_handlers =
  adds_pushLeaf adds_onRegExpFlags adds_onPatternEnter adds_onBackreference
  adds_onAlternativeEnter adds_onGroupEnter adds_onModifiersEnter adds_onAddModifiers
  adds_onRemoveModifiers adds_onCapturingGroupEnter adds_onQuantifier
  adds_onLookaroundAssertionEnter adds_onUnicodePropertyCharacterSet
  adds_onCharacterClassEnter adds_onCharacterClassRange adds_classSetOperation
  adds_onClassStringDisjunctionEnter adds_onStringAlternativeEnter

lemma handle_adds: "handle ev st = Inr st' \<Longrightarrow> leaveOffset ev = None \<Longrightarrow> adds st st'"
  by (cases ev)
    (auto simp add: onEdgeAssertion_def onWordBoundaryAssertion_def onAnyCharacterSet_def
       onEscapeCharacterSet_def onCharacter_def onClassIntersection_def
       onClassSubtraction_def dest!: adds_handlers)

lemma handle_leave:
  assumes "handle ev st = Inr st'" and "leaveOffset ev = Some s"
    and "rawFrom (source st) base (heap st)"
    and "field (heap st) (node st) ''start'' = VNum s"
  shows "rawFrom (source st) base (heap st')"
  using assms
  by (cases ev)
    (auto simp add: onGroupLeave_def onModifiersLeave_def onCapturingGroupLeave_def
       onLookaroundAssertionLeave_def onClassStringDisjunctionLeave_def
       intro: rawFrom_leaveChecked rawFrom_onAlternativeLeave
         rawFrom_onStringAlternativeLeave rawFrom_onPatternLeave
         rawFrom_onCharacterClassLeave)

lemma handle_rawFrom:
  assumes inv: "rawFrom (source st) base (heap st)" and agree: "leaveStart ev st"
    and step: "handle ev st = Inr st'"
  shows "rawFrom (source st') base (heap st')"
proof (cases "leaveOffset ev")
  case None
  from rawFrom_adds [OF inv handle_adds [OF step None]] show ?thesis
    by (simp add: handle_source [OF step])
next
  case (Some s)
  with agree have "field (heap st) (node st) ''start'' = VNum s"
    by (simp add: leaveStart_def)
  from handle_leave [OF step Some inv this] show ?thesis
    by (simp add: handle_source [OF step])
qed

lemma run_source: "run evs st = Inr st' \<Longrightarrow> source st' = source st"
proof (induction evs arbitrary: st)
  case Nil
  then show ?case by simp
next
  case (Cons ev evs)
  from Cons.prems obtain st1 where
    step: "handle ev st = Inr st1" and rest: "run evs st1 = Inr st'"
    by (auto dest!: bindE_Inr)
  from Cons.IH [OF rest] handle_source [OF step] show ?case
    by simp
qed

lemma run_rawFrom:
  "run evs st = Inr st' \<Longrightarrow> agreeing evs st \<Longrightarrow> rawFrom (source st) base (heap st) \<Longrightarrow>
     rawFrom (source st) base (heap st')"
proof (induction evs arbitrary: st)
  case Nil
  then show ?case by simp
next
  case (Cons ev evs)
  from Cons.prems(1) obtain st1 where
    step: "handle ev st = Inr st1" and rest: "run evs st1 = Inr st'"
    by (auto dest!: bindE_Inr)
  from Cons.prems(2) step have agree: "leaveStart ev st" "agreeing evs st1"
    by simp_all
  from Cons.IH [OF rest agree(2) handle_rawFrom [OF Cons.prems(3) agree(1) step]]
  show ?case
    unfolding handle_source [OF step] .
qed

lemma characterObjects_nth:
  "i < length cs \<Longrightarrow>
     characterObjects cs pos ! i =
       mkNode ''Character'' VNull (pos + int i) (pos + int i + 1) [cs ! i]
         [(''value'', VNum (int (cs ! i)))]"
proof (induction cs arbitrary: pos i)
  case Nil
  then show ?case by simp
next
  case (Cons c cs)
  show ?case
  proof (cases i)
    case 0
    then show ?thesis by simp
  next
    case (Suc j)
    with Cons.prems Cons.IH [of j "pos + 1"] show ?thesis
      by (simp add: algebra_simps)
  qed
qed

lemma leafRaws_characterTrees:
  "concat (map leafRaws (characterTrees cs pos)) = map (\<lambda>c. [c]) cs"
  by (induction cs arbitrary: pos) (simp_all add: rawOf_def)

lemma leafRaws_simpleLiteralTree:
  "pat \<noteq> [] \<Longrightarrow> concat (leafRaws (simpleLiteralTree pat start endp)) = pat"
  by (simp add: simpleLiteralTree_def leafRaws_characterTrees Let_def)

lemma fastPath_raw:
  assumes simple: "isSimpleLiteral (sliceStr src start endp)"
    and range: "0 \<le> start" "start \<le> endp" "endp \<le> int (length src)"
  shows "\<exists>p h'. tryFastPath src start endp h = Some (p, h') \<and>
      (\<forall>a. length h \<le> a \<longrightarrow> getp h' a ''type'' \<noteq> VUndef \<longrightarrow> nodeRaw src h' a) \<and>
      snapshot 6 h' (VRef p) = Some (simpleLiteralTree (sliceStr src start endp) start endp)"
proof -
  let ?pat = "sliceStr src start endp"
  let ?n = "length ?pat"
  let ?A = "mkNode ''Alternative'' (VRef (length h + ?n + 1)) start endp ?pat
      [(''elements'', VArr (map VRef [length h ..< length h + ?n]))]"
  let ?P = "mkNode ''Pattern'' VNull start endp ?pat
      [(''alternatives'', VArr [VRef (length h + ?n)])]"
  let ?objs = "map (AList.update ''parent'' (VRef (length h + ?n))) (characterObjects ?pat start)"
  let ?h' = "h @ ?objs @ [?A, ?P]"
  let ?p = "length h + ?n + 1"
  have fast: "tryFastPath src start endp h = Some (?p, ?h')"
    using simple by (simp add: tryFastPath_def createSimpleLiteralAST_heap Let_def)
  have tree: "snapshot 6 ?h' (VRef ?p) = Some (simpleLiteralTree ?pat start endp)"
  proof (rule snapshot_simple_literal)
    show "objAt ?h' ?p = mkNode ''Pattern'' VNull start endp ?pat
        [(''alternatives'', VArr [VRef (length h + ?n)])]"
      by simp
    show "objAt ?h' (length h + ?n) = ?A"
      by simp
    show "those (map (snapshot (Suc (Suc 0)) ?h') (map VRef [length h ..< length h + ?n])) =
        Some (characterTrees ?pat start)"
      by (rule snapshot_characters)
  qed
  have raw: "nodeRaw src ?h' a" if a: "length h \<le> a" "getp ?h' a ''type'' \<noteq> VUndef" for a
  proof -
    from a(2) getp_valid [of ?h' a "''type''"] have "a < length h + ?n + 2"
      by simp
    with a(1) consider i where "i < ?n" "a = length h + i" | "a = length h + ?n"
      | "a = length h + ?n + 1"
      by (metis add.commute add_2_eq_Suc' add_Suc_right le_Suc_ex less_Suc_eq nat_add_left_cancel_less Suc_eq_plus1)
    then show ?thesis
    proof cases
      case 1
      then have "getp ?h' a k = (case map_of (AList.update ''parent'' (VRef (length h + ?n))
          (characterObjects ?pat start ! i)) k of Some v \<Rightarrow> v | None \<Rightarrow> VUndef)" for k
        by (simp add: getp_def nth_append)
      with 1 sliceStr_unit [OF range, of i] show ?thesis
        by (simp add: nodeRaw_def characterObjects_nth mkNode_def)
    next
      case 2
      then show ?thesis
        by (auto simp add: nodeRaw_def getp_def nth_append mkNode_def)
    next
      case 3
      then show ?thesis
        by (auto simp add: nodeRaw_def getp_def nth_append mkNode_def)
    qed
  qed
  from fast raw tree show ?thesis
    by blast
qed

text \<open>
  C7, as the code has it. Every node the assembler creates during a run of calls has
  the slice of the source between its offsets as \<open>raw\<close>, when each Leave call carries
  the \<open>start\<close> of the node it closes; so has every node of a fast-path tree, for offsets
  inside the source, and the \<open>raw\<close> of the leaves of a fast-path tree, from left to
  right, make up the slice that was parsed.
\<close>

theorem raw_is_the_slice_of_the_source:
  "(\<forall>st'. run evs st = Inr st' \<longrightarrow> agreeing evs st \<longrightarrow>
      (\<forall>a. length (heap st) \<le> a \<longrightarrow> getp (heap st') a ''type'' \<noteq> VUndef \<longrightarrow>
           nodeRaw (source st) (heap st') a)) \<and>
   (isSimpleLiteral (sliceStr src start endp) \<longrightarrow>
    0 \<le> start \<and> start \<le> endp \<and> endp \<le> int (length src) \<longrightarrow>
      (\<exists>p h' t. tryFastPath src start endp h = Some (p, h') \<and>
         (\<forall>a. length h \<le> a \<longrightarrow> getp h' a ''type'' \<noteq> VUndef \<longrightarrow> nodeRaw src h' a) \<and>
         snapshot 6 h' (VRef p) = Some t \<and>
         concat (leafRaws t) = sliceStr src start endp))"
proof (intro conjI allI impI)
  fix st' a
  assume run: "run evs st = Inr st'" and agree: "agreeing evs st"
    and a: "length (heap st) \<le> a" "getp (heap st') a ''type'' \<noteq> VUndef"
  have "rawFrom (source st) (length (heap st)) (heap st)"
    using getp_valid [of "heap st" _ "''type''"] by (fastforce simp add: rawFrom_def)
  from run_rawFrom [OF run agree this] a show "nodeRaw (source st) (heap st') a"
    by (simp add: rawFrom_def)
next
  assume simple: "isSimpleLiteral (sliceStr src start endp)"
    and range: "0 \<le> start \<and> start \<le> endp \<and> endp \<le> int (length src)"
  from simple have "sliceStr src start endp \<noteq> []"
    by (simp add: isSimpleLiteral_def)
  from leafRaws_simpleLiteralTree [OF this] fastPath_raw [OF simple, of h] range
  show "\<exists>p h' t. tryFastPath src start endp h = Some (p, h') \<and>
      (\<forall>a. length h \<le> a \<longrightarrow> getp h' a ''type'' \<noteq> VUndef \<longrightarrow> nodeRaw src h' a) \<and>
      snapshot 6 h' (VRef p) = Some t \<and> concat (leafRaws t) = sliceStr src start endp"
    by blast
qed

text \<open>
  The claim as stated fails at \<open>a(b|c)d\<close>: the \<open>raw\<close> of the leaves make up \<open>abcd\<close>, and
  the \<open>raw\<close> of all nodes is longer than the source; neither is the source.
\<close>

theorem raw_is_the_slice_of_the_source_counterexample:
  "assemble groupPattern groupPatternEvents = Inr groupPatternState \<and>
   snapshot 12 (heap groupPatternState) (node groupPatternState) =
     Some (treeOf (heap groupPatternState) (node groupPatternState)) \<and>
   concat (leafRaws (treeOf (heap groupPatternState) (node groupPatternState))) =
     ustr ''abcd'' \<and>
   concat (leafRaws (treeOf (heap groupPatternState) (node groupPatternState))) \<noteq>
     groupPattern \<and>
   concat (allRaws (treeOf (heap groupPatternState) (node groupPatternState))) \<noteq>
     groupPattern"
  by code_simp

text \<open>
  The theorem at \<open>a(b|c)d\<close>, where the CapturingGroup is object 6, and at the simple
  literal \<open>abc\<close>.
\<close>

theorem raw_is_the_slice_of_the_source_witness:
  "agreeing groupPatternEvents ((newState False 2025 heap0)\<lparr>source := groupPattern\<rparr>) \<and>
   getp (heap groupPatternState) 6 ''raw'' = VStr (ustr ''(b|c)'') \<and>
   nodeRaw groupPattern (heap groupPatternState) 6 \<and>
   (\<exists>p h' t. tryFastPath (ustr ''abc'') 0 3 heap0 = Some (p, h') \<and>
      snapshot 6 h' (VRef p) = Some t \<and> concat (leafRaws t) = ustr ''abc'')"
proof -
  let ?st = "(newState False 2025 heap0)\<lparr>source := groupPattern\<rparr>"
  have run: "run groupPatternEvents ?st = Inr groupPatternState"
    and agree: "agreeing groupPatternEvents ?st"
    and node: "length (heap ?st) \<le> 6" "getp (heap groupPatternState) 6 ''type'' \<noteq> VUndef"
      "getp (heap groupPatternState) 6 ''raw'' = VStr (ustr ''(b|c)'')"
    by code_simp+
  have slice: "sliceStr (ustr ''abc'') 0 3 = ustr ''abc''"
    by (simp add: sliceStr_def ustr_def)
  have simple: "isSimpleLiteral (sliceStr (ustr ''abc'') 0 3)"
    unfolding slice by (simp add: isSimpleLiteral_def isWordUnit_def ustr_def)
  have range: "(0::int) \<le> 0 \<and> (0::int) \<le> 3 \<and> 3 \<le> int (length (ustr ''abc''))"
    by (simp add: ustr_def)
  note inst = raw_is_the_slice_of_the_source
    [where evs = groupPatternEvents and st = ?st and src = "ustr ''abc''" and start = 0
       and endp = 3 and h = heap0]
  from inst [THEN conjunct1, rule_format, OF run agree node(1,2)]
  have "nodeRaw groupPattern (heap groupPatternState) 6"
    by simp
  moreover from inst [THEN conjunct2, rule_format, OF simple range]
  have "\<exists>p h' t. tryFastPath (ustr ''abc'') 0 3 heap0 = Some (p, h') \<and>
      snapshot 6 h' (VRef p) = Some t \<and> concat (leafRaws t) = ustr ''abc''"
    unfolding slice by blast
  ultimately show ?thesis
    using agree node(3) by simp
qed


end
